theory Spec2Isabelle
  imports Complex_Main "HOL-Library.Sublist"
begin

section \<open>Strings of the content script\<close>

text \<open>
  A JavaScript string is a sequence of UTF-16 code units. The model reads a
  \<^typ>\<open>char\<close> as the code unit of the same value, so it covers the strings whose
  code units are below 256 (ASCII and Latin-1); Reddit user names are ASCII.
  The character classes and the case mapping below are the ones of ECMAScript on
  that range.
\<close>

text \<open>\<open>\s\<close> of a regular expression, also the set removed by \<open>trim()\<close>:
  tab, line feed, vertical tab, form feed, carriage return, space, no-break space.\<close>

definition isSpace :: "char \<Rightarrow> bool" where
  "isSpace c = (c \<in> set [CHR 0x09, CHR 0x0A, CHR 0x0B, CHR 0x0C, CHR 0x0D, CHR 0x20, CHR 0xA0])"

text \<open>\<open>\w\<close> of a regular expression without flags: \<open>[A-Za-z0-9_]\<close>.\<close>

definition isWord :: "char \<Rightarrow> bool" where
  "isWord c =
     (c \<in> set (''ABCDEFGHIJKLMNOPQRSTUVWXYZ'' @ ''abcdefghijklmnopqrstuvwxyz''
                @ ''0123456789'' @ ''_''))"

text \<open>\<open>String.prototype.toLowerCase\<close>: A-Z, and the Latin-1 capitals
  U+00C0..U+00DE without the multiplication sign U+00D7, map to the letter 32 places
  further; every other code unit below 256 stays.\<close>

definition upperCase :: string where
  "upperCase =
     ''ABCDEFGHIJKLMNOPQRSTUVWXYZ'' @
     [CHR 0xC0, CHR 0xC1, CHR 0xC2, CHR 0xC3, CHR 0xC4, CHR 0xC5, CHR 0xC6,
      CHR 0xC7, CHR 0xC8, CHR 0xC9, CHR 0xCA, CHR 0xCB, CHR 0xCC, CHR 0xCD,
      CHR 0xCE, CHR 0xCF, CHR 0xD0, CHR 0xD1, CHR 0xD2, CHR 0xD3, CHR 0xD4,
      CHR 0xD5, CHR 0xD6, CHR 0xD8, CHR 0xD9, CHR 0xDA, CHR 0xDB, CHR 0xDC,
      CHR 0xDD, CHR 0xDE]"

definition lowerCase :: string where
  "lowerCase =
     ''abcdefghijklmnopqrstuvwxyz'' @
     [CHR 0xE0, CHR 0xE1, CHR 0xE2, CHR 0xE3, CHR 0xE4, CHR 0xE5, CHR 0xE6,
      CHR 0xE7, CHR 0xE8, CHR 0xE9, CHR 0xEA, CHR 0xEB, CHR 0xEC, CHR 0xED,
      CHR 0xEE, CHR 0xEF, CHR 0xF0, CHR 0xF1, CHR 0xF2, CHR 0xF3, CHR 0xF4,
      CHR 0xF5, CHR 0xF6, CHR 0xF8, CHR 0xF9, CHR 0xFA, CHR 0xFB, CHR 0xFC,
      CHR 0xFD, CHR 0xFE]"

definition toLowerChar :: "char \<Rightarrow> char" where
  "toLowerChar c = (case map_of (zip upperCase lowerCase) c of None \<Rightarrow> c | Some l \<Rightarrow> l)"

definition toLowerCase :: "string \<Rightarrow> string" where
  "toLowerCase s = map toLowerChar s"

text \<open>\<open>includes\<close>, \<open>startsWith\<close> and \<open>endsWith\<close> of a string.\<close>

definition includes_js :: "string \<Rightarrow> string \<Rightarrow> bool" where
  "includes_js s t = sublist t s"

definition startsWith :: "string \<Rightarrow> string \<Rightarrow> bool" where
  "startsWith s t = prefix t s"

definition endsWith :: "string \<Rightarrow> string \<Rightarrow> bool" where
  "endsWith s t = suffix t s"

definition trim :: "string \<Rightarrow> string" where
  "trim s = rev (dropWhile isSpace (rev (dropWhile isSpace s)))"

section \<open>Author filter\<close>

definition FILTERED_AUTHORS :: "string list" where
  "FILTERED_AUTHORS =
     [''automoderator'', ''automod'', ''moderator'', ''bot'', ''modbot'', ''reddit'']"

text \<open>\<open>shouldFilterAuthor(author: string | null)\<close>: \<open>None\<close> is \<open>null\<close>;
  \<open>!author\<close> holds for \<open>null\<close> and for the empty string.\<close>

definition shouldFilterAuthor :: "string option \<Rightarrow> bool" where
  "shouldFilterAuthor author =
     (case author of
        None \<Rightarrow> False
      | Some a \<Rightarrow>
          if a = [] then False
          else
            let lowerAuthor = toLowerCase a
            in if lowerAuthor \<in> set FILTERED_AUTHORS then True
               else if includes_js lowerAuthor ''bot'' then True
               else if endsWith lowerAuthor ''bot'' \<or> endsWith lowerAuthor ''_bot'' then True
               else if startsWith lowerAuthor ''mod'' then True
               else False)"

section \<open>Link removal\<close>

text \<open>
  \<open>text.replace(re, replacement)\<close> with a global regular expression scans the
  string from the left; where the expression matches, the match is replaced and the scan
  goes on behind it, otherwise one character is kept. A matcher is given the character
  before the position (for \<open>\b\<close>) and the rest of the string; it returns the length of
  the match and the replacement text. None of the expressions below matches the empty
  string.
\<close>

type_synonym matcher = "char option \<Rightarrow> string \<Rightarrow> (nat \<times> string) option"

fun replaceAll :: "matcher \<Rightarrow> char option \<Rightarrow> string \<Rightarrow> string" where
  "replaceAll m prev [] = []"
| "replaceAll m prev (c # cs) =
     (case m prev (c # cs) of
        None \<Rightarrow> c # replaceAll m (Some c) cs
      | Some (k, rep) \<Rightarrow>
          rep @ replaceAll m (Some ((c # cs) ! (k - 1))) (drop (k - 1) cs))"

definition replace :: "matcher \<Rightarrow> string \<Rightarrow> string" where
  "replace m s = replaceAll m None s"

text \<open>\<open>/\[([^\]]+)\]\([^\)]+\)/g\<close>, replaced by \<open>$1\<close>. Each of the two character
  classes excludes the character that has to follow it, so the greedy run is the only
  candidate.\<close>

definition markdownLink :: matcher where
  "markdownLink prev s =
     (case s of
        [] \<Rightarrow> None
      | c # r1 \<Rightarrow>
          if c \<noteq> CHR ''['' then None
          else
            let label = takeWhile (\<lambda>x. x \<noteq> CHR '']'') r1;
                r2 = dropWhile (\<lambda>x. x \<noteq> CHR '']'') r1
            in if label = [] \<or> \<not> prefix ''](''  r2 then None
               else
                 let r3 = drop 2 r2;
                     url = takeWhile (\<lambda>x. x \<noteq> CHR '')'') r3;
                     r4 = dropWhile (\<lambda>x. x \<noteq> CHR '')'') r3
                 in if url = [] \<or> \<not> prefix '')'' r4 then None
                    else Some (length label + length url + 4, label))"

text \<open>A literal prefix followed by \<open>[^\s]+\<close>, replaced by the empty string.\<close>

definition literalThenNonSpace :: "string \<Rightarrow> string \<Rightarrow> (nat \<times> string) option" where
  "literalThenNonSpace lit s =
     (if prefix lit s
      then let run = takeWhile (\<lambda>x. \<not> isSpace x) (drop (length lit) s)
           in if run = [] then None else Some (length lit + length run, [])
      else None)"

text \<open>\<open>/https?:\/\/[^\s]+/g\<close>: the optional \<open>s\<close> is tried first.\<close>

definition plainUrl :: matcher where
  "plainUrl prev s =
     (case literalThenNonSpace ''https://'' s of
        Some r \<Rightarrow> Some r
      | None \<Rightarrow> literalThenNonSpace ''http://'' s)"

text \<open>\<open>/www\.[^\s]+/g\<close>.\<close>

definition wwwUrl :: matcher where
  "wwwUrl prev s = literalThenNonSpace ''www.'' s"

text \<open>\<open>\b\<close>: exactly one of the characters around the position is a word
  character; the ends of the string count as non-word.\<close>

definition wordBoundary :: "char option \<Rightarrow> string \<Rightarrow> bool" where
  "wordBoundary prev s =
     ((case prev of None \<Rightarrow> False | Some p \<Rightarrow> isWord p)
        \<noteq> (case s of [] \<Rightarrow> False | c # _ \<Rightarrow> isWord c))"

text \<open>\<open>/\br\/\w+/g\<close> and \<open>/\bu\/\w+/g\<close>, with the letter as a parameter.\<close>

definition slashRef :: "char \<Rightarrow> matcher" where
  "slashRef letter prev s =
     (if wordBoundary prev s \<and> prefix [letter, CHR ''/''] s
      then let run = takeWhile isWord (drop 2 s)
           in if run = [] then None else Some (2 + length run, [])
      else None)"

text \<open>\<open>/\s+/g\<close>, replaced by one space.\<close>

definition spaces :: matcher where
  "spaces prev s =
     (let run = takeWhile isSpace s
      in if run = [] then None else Some (length run, '' ''))"

definition removeLinks :: "string \<Rightarrow> string" where
  "removeLinks text0 =
     (let text1 = replace markdownLink text0;
          text2 = replace plainUrl text1;
          text3 = replace wwwUrl text2;
          text4 = replace (slashRef CHR ''r'') text3;
          text5 = replace (slashRef CHR ''u'') text4
      in trim (replace spaces text5))"

section \<open>Voice allocation\<close>

record voice =
  name :: string
  lang :: string

text \<open>\<open>filterVoicesByLocale\<close>: the pool is the English voices, or every voice
  when there is none.\<close>

definition filterVoicesByLocale :: "voice list \<Rightarrow> voice list" where
  "filterVoicesByLocale availableVoices =
     (let filteredVoices =
            filter (\<lambda>v. startsWith (lang v) ''en-'' \<or> lang v = ''en'') availableVoices
      in if length filteredVoices = 0 then availableVoices else filteredVoices)"

text \<open>
  \<open>getVoiceForIndex(index)\<close> reads the module variables \<open>filteredVoices\<close>,
  \<open>useUniqueVoices\<close> and \<open>selectedVoiceNames\<close>, here parameters. The index is a
  position of the queue: \<open>readContent\<close>, the only caller, passes it after its range
  check, so it is a natural number. \<open>None\<close> is \<open>null\<close>.
\<close>

definition getVoiceForIndex :: "voice list \<Rightarrow> bool \<Rightarrow> string list \<Rightarrow> nat \<Rightarrow> voice option" where
  "getVoiceForIndex filteredVoices useUniqueVoices selectedVoiceNames index =
     (if length filteredVoices = 0 then None
      else if \<not> useUniqueVoices then Some (filteredVoices ! 0)
      else
        let voicesToUse =
              (if length selectedVoiceNames > 0
               then let chosen = filter (\<lambda>v. name v \<in> set selectedVoiceNames) filteredVoices
                    in if length chosen = 0 then filteredVoices else chosen
               else filteredVoices);
            voiceIndex = index mod length voicesToUse
        in Some (voicesToUse ! voiceIndex))"

section \<open>Expansion of hidden replies\<close>

datatype strategy = Breadth | Depth | Balanced

text \<open>
  What the controller reads of one \<open>faceplate-partial\<close>: its first \<open>button\<close>
  if it has one, the text of that button, and the chain of \<open>parentElement\<close>s, nearest
  first, each with its tag name and its \<open>depth\<close> attribute. The attribute is an
  integer when present (\<open>parseInt\<close> of a missing attribute reads \<open>'0'\<close>).
\<close>

record ancestor =
  tagName :: string
  depthAttribute :: "int option"

record 'b faceplate_partial =
  firstButton :: "'b option"
  textContent :: string
  parents :: "ancestor list"

text \<open>The \<open>while (parent)\<close> walk: one more than the depth of the nearest
  enclosing comment, 0 when there is none.\<close>

fun effectiveDepth :: "ancestor list \<Rightarrow> int" where
  "effectiveDepth [] = 0"
| "effectiveDepth (parent # grandparents) =
     (if toLowerCase (tagName parent) = ''shreddit-comment''
      then (case depthAttribute parent of None \<Rightarrow> 0 | Some d \<Rightarrow> d) + 1
      else effectiveDepth grandparents)"

definition isMoreButton :: "'b faceplate_partial \<Rightarrow> bool" where
  "isMoreButton partial =
     (case firstButton partial of
        None \<Rightarrow> False
      | Some b \<Rightarrow>
          let t = toLowerCase (textContent partial)
          in includes_js t ''more replies'' \<or> includes_js t ''more comment'')"

definition hasDepthButtons :: "'b faceplate_partial list \<Rightarrow> bool" where
  "hasDepthButtons ps =
     list_ex (\<lambda>partial. isMoreButton partial \<and> effectiveDepth (parents partial) > 0) ps"

record 'b more_button =
  button :: 'b
  buttonDepth :: int

definition toMoreButton :: "'b faceplate_partial \<Rightarrow> 'b more_button option" where
  "toMoreButton partial =
     (case firstButton partial of
        None \<Rightarrow> None
      | Some b \<Rightarrow>
          if isMoreButton partial
          then Some \<lparr>button = b, buttonDepth = effectiveDepth (parents partial)\<rparr>
          else None)"

text \<open>The strategy filter of the \<open>switch\<close>.\<close>

definition admitted :: "strategy \<Rightarrow> int \<Rightarrow> int \<Rightarrow> nat \<Rightarrow> int \<Rightarrow> bool" where
  "admitted strategy targetDepth maxTopLevel topLevelCount d =
     (case strategy of
        Breadth \<Rightarrow>
          if d = 0 \<and> int topLevelCount \<ge> maxTopLevel then False
          else d \<le> min 2 targetDepth
      | Depth \<Rightarrow>
          if d = 0 \<and> int topLevelCount \<ge> min 10 maxTopLevel then False
          else d < targetDepth
      | Balanced \<Rightarrow>
          if d = 0 \<and> int topLevelCount \<ge> maxTopLevel then False
          else d < targetDepth)"

text \<open>\<open>Array.prototype.sort\<close> is stable; so is \<^const>\<open>sort_key\<close>.\<close>

definition sortButtons :: "strategy \<Rightarrow> 'b more_button list \<Rightarrow> 'b more_button list" where
  "sortButtons strategy items =
     (case strategy of
        Breadth \<Rightarrow> sort_key buttonDepth items
      | Depth \<Rightarrow> sort_key (\<lambda>item. - buttonDepth item) items
      | Balanced \<Rightarrow> sort_key buttonDepth items)"

definition findMoreButtons ::
  "strategy \<Rightarrow> int \<Rightarrow> int \<Rightarrow> nat \<Rightarrow> 'b faceplate_partial list \<Rightarrow> 'b more_button list" where
  "findMoreButtons strategy targetDepth maxTopLevel topLevelCount ps =
     sortButtons strategy
       (filter (\<lambda>item. admitted strategy targetDepth maxTopLevel topLevelCount (buttonDepth item))
          (List.map_filter toMoreButton ps))"

text \<open>
  The live document, of some type \<open>'w\<close>, with what the controller can do to it: count
  the comment nodes and the top-level ones, list the \<open>faceplate-partial\<close>s, click a
  button, and wait. A wait of \<open>ms\<close> milliseconds gives the document as it is afterwards
  and tells whether a \<open>stopExtraction\<close> message was handled meanwhile.
\<close>

record ('w, 'b) document =
  countComments :: "'w \<Rightarrow> nat"
  countTopLevel :: "'w \<Rightarrow> nat"
  faceplatePartials :: "'w \<Rightarrow> 'b faceplate_partial list"
  click :: "'b \<Rightarrow> 'w \<Rightarrow> 'w"
  setTimeout :: "nat \<Rightarrow> 'w \<Rightarrow> 'w \<times> bool"

text \<open>A click as the run logs it: the button, its effective depth, and the top-level
  count of the iteration that admitted it.\<close>

record 'b click_event =
  clicked :: 'b
  atDepth :: int
  topLevelSeen :: nat

text \<open>The module variables of the extraction, the document, and the log of the run:
  the clicks made and the milliseconds waited.\<close>

record ('w, 'b) expansion =
  doc :: 'w
  isExtracting :: bool
  shouldStopExtraction :: bool
  extractionProgress :: nat
  clicks :: "'b click_event list"
  waited :: nat

definition batchSize :: "strategy \<Rightarrow> nat" where
  "batchSize strategy = (if strategy = Breadth then 3 else 2)"

definition await :: "('w, 'b) document \<Rightarrow> nat \<Rightarrow> ('w, 'b) expansion \<Rightarrow> ('w, 'b) expansion" where
  "await D ms st =
     (let (w, stop) = setTimeout D ms (doc st)
      in st\<lparr>doc := w,
            shouldStopExtraction := (shouldStopExtraction st \<or> stop),
            waited := waited st + ms\<rparr>)"

definition clickOne ::
  "('w, 'b) document \<Rightarrow> nat \<Rightarrow> ('w, 'b) expansion \<Rightarrow> 'b more_button \<Rightarrow> ('w, 'b) expansion" where
  "clickOne D topLevelCount st item =
     st\<lparr>doc := click D (button item) (doc st),
        clicks := clicks st @
          [\<lparr>clicked = button item, atDepth = buttonDepth item,
            topLevelSeen = topLevelCount\<rparr>]\<rparr>"

text \<open>The \<open>for\<close> loop over the batches of one iteration.\<close>

function clickBatches ::
  "('w, 'b) document \<Rightarrow> int \<Rightarrow> strategy \<Rightarrow> nat \<Rightarrow> 'b more_button list \<Rightarrow>
   ('w, 'b) expansion \<Rightarrow> ('w, 'b) expansion" where
  "clickBatches D maxTotal strategy topLevelCount buttonsToClick st =
     (if buttonsToClick = [] then st
      else if shouldStopExtraction st then st
      else
        let currentCount = countComments D (doc st);
            st1 = st\<lparr>extractionProgress := currentCount\<rparr>
        in if int currentCount \<ge> maxTotal then st1
           else
             let batch = take (batchSize strategy) buttonsToClick;
                 st2 = foldl (clickOne D topLevelCount) st1 batch;
                 st3 = await D 1000 st2
             in clickBatches D maxTotal strategy topLevelCount
                  (drop (batchSize strategy) buttonsToClick) st3)"
  by pat_completeness auto
termination
  by (relation "measure (\<lambda>(D, maxTotal, strategy, topLevelCount, bs, st). length bs)")
     (auto simp: batchSize_def)

declare clickBatches.simps [simp del]

definition maxIterations :: nat where
  "maxIterations = 50"

text \<open>One pass through the body of the \<open>while\<close> loop: it leaves the loop by a
  \<open>break\<close>, or it reaches the end of the body.\<close>

datatype 'a body_result = Break 'a | Continue 'a

definition iteration ::
  "('w, 'b) document \<Rightarrow> int \<Rightarrow> int \<Rightarrow> int \<Rightarrow> strategy \<Rightarrow>
   ('w, 'b) expansion \<Rightarrow> ('w, 'b) expansion body_result" where
  "iteration D targetDepth maxTopLevel maxTotal strategy st =
     (let currentTotal = countComments D (doc st);
          st1 = st\<lparr>extractionProgress := currentTotal\<rparr>;
          topLevelCount = countTopLevel D (doc st)
      in if int currentTotal \<ge> maxTotal then Break st1
         else if shouldStopExtraction st1 then Break st1
         else if int topLevelCount \<ge> maxTopLevel \<and> strategy \<noteq> Depth
                 \<and> \<not> hasDepthButtons (faceplatePartials D (doc st1))
         then Break st1
         else
           let moreButtons =
                 findMoreButtons strategy targetDepth maxTopLevel topLevelCount
                   (faceplatePartials D (doc st1))
           in if length moreButtons = 0 then Break st1
              else
                let remainingBudget = maxTotal - int currentTotal
                in if remainingBudget \<le> 0 then Break st1
                   else
                     let estimatedCommentsPerButton = 7;
                         maxButtonsToClick =
                           max 1 (remainingBudget div estimatedCommentsPerButton);
                         buttonsToClick =
                           take (nat (min (int (length moreButtons)) maxButtonsToClick))
                             moreButtons;
                         st2 = clickBatches D maxTotal strategy topLevelCount
                                 buttonsToClick st1
                     in Continue (await D 800 st2))"

text \<open>The \<open>while\<close> loop; the result is the number of completed iterations and the
  state at the exit.\<close>

function expandLoop ::
  "('w, 'b) document \<Rightarrow> int \<Rightarrow> int \<Rightarrow> int \<Rightarrow> strategy \<Rightarrow> nat \<Rightarrow>
   ('w, 'b) expansion \<Rightarrow> nat \<times> ('w, 'b) expansion" where
  "expandLoop D targetDepth maxTopLevel maxTotal strategy iterations st =
     (if iterations < maxIterations \<and> \<not> shouldStopExtraction st
      then
        (case iteration D targetDepth maxTopLevel maxTotal strategy st of
           Break st' \<Rightarrow> (iterations, st')
         | Continue st' \<Rightarrow>
             expandLoop D targetDepth maxTopLevel maxTotal strategy (iterations + 1) st')
      else (iterations, st))"
  by pat_completeness auto
termination
  by (relation "measure (\<lambda>(D, targetDepth, maxTopLevel, maxTotal, strategy, iterations, st).
        maxIterations - iterations)") auto

declare expandLoop.simps [simp del]

text \<open>\<open>expandCommentsToDepth\<close> overwrites the three module variables before it
  reads them, so the run is a function of the document alone.\<close>

definition expandCommentsToDepth ::
  "('w, 'b) document \<Rightarrow> int \<Rightarrow> int \<Rightarrow> int \<Rightarrow> strategy \<Rightarrow> 'w \<Rightarrow> ('w, 'b) expansion" where
  "expandCommentsToDepth D targetDepth maxTopLevel maxTotal strategy w =
     (let initialComments = countComments D w;
          st = \<lparr>doc = w, isExtracting = True, shouldStopExtraction = False,
                extractionProgress = initialComments, clicks = [], waited = 0\<rparr>
      in if int initialComments \<ge> maxTotal then st\<lparr>isExtracting := False\<rparr>
         else
           let (iterations, st') =
                 expandLoop D targetDepth maxTopLevel maxTotal strategy 0 st;
               finalCount = countComments D (doc st')
           in st'\<lparr>extractionProgress := finalCount, isExtracting := False\<rparr>)"

section \<open>Extraction of the comments\<close>

text \<open>
  What \<open>extractComments\<close> reads of one \<open>shreddit-comment\<close> element: four
  attributes (\<open>None\<close> when \<open>getAttribute\<close> gives \<open>null\<close>) and the text of the
  descendant whose id ends in \<open>-comment-rtjson-content\<close> (\<open>None\<close> when there is
  none). The \<open>depth\<close> attribute is an integer when present.
\<close>

record comment_element =
  thingidAttr :: "string option"
  authorAttr :: "string option"
  depthAttr :: "int option"
  permalinkAttr :: "string option"
  contentDiv :: "string option"

record CommentData =
  id' :: string
  text' :: string
  author :: "string option"
  depth :: int
  permalink :: string
  element :: comment_element

text \<open>The decimal digits of a number, as a template literal writes it.\<close>

fun decimal :: "nat \<Rightarrow> string" where
  "decimal n =
     (if n < 10 then [char_of (48 + n)]
      else decimal (n div 10) @ [char_of (48 + n mod 10)])"

declare decimal.simps [simp del]

text \<open>\<open>a || b\<close> on a string that may be \<open>null\<close>: \<open>null\<close> and the empty
  string give \<open>b\<close>.\<close>

definition orElse :: "string option \<Rightarrow> string \<Rightarrow> string" where
  "orElse a b = (case a of None \<Rightarrow> b | Some x \<Rightarrow> if x = [] then b else x)"

text \<open>The body of the \<open>forEach\<close>, on the records pushed so far and the count of
  filtered authors.\<close>

definition extractOne ::
  "CommentData list \<times> nat \<Rightarrow> comment_element \<Rightarrow> CommentData list \<times> nat" where
  "extractOne acc commentEl =
     (let extractedComments = fst acc;
          filteredCount = snd acc;
          thingId = orElse (thingidAttr commentEl) [];
          ident = (if thingId \<noteq> [] then thingId
                   else ''comment-'' @ decimal (length extractedComments));
          auth = (case authorAttr commentEl of
                    None \<Rightarrow> None
                  | Some a \<Rightarrow> if a = [] then None else Some a);
          dep = (case depthAttr commentEl of None \<Rightarrow> 0 | Some d \<Rightarrow> d)
      in if shouldFilterAuthor auth then (extractedComments, filteredCount + 1)
         else
           let content = orElse (map_option trim (contentDiv commentEl)) [];
               content' = removeLinks content
           in if content' = [] then (extractedComments, filteredCount)
              else
                (extractedComments @
                   [\<lparr>id' = ident, text' = content', author = auth, depth = dep,
                     permalink = orElse (permalinkAttr commentEl) (''#'' @ ident),
                     element = commentEl\<rparr>],
                 filteredCount))"

text \<open>\<open>extractComments\<close> over the comment elements in document order; the second
  component is \<open>filteredCount\<close>, which the function only logs.\<close>

definition extractComments :: "comment_element list \<Rightarrow> CommentData list \<times> nat" where
  "extractComments commentElements = foldl extractOne ([], 0) commentElements"

section \<open>The speech engine\<close>

text \<open>
  \<open>window.speechSynthesis\<close> as the Web Speech API describes it: a queue of
  utterances, the first of which is being spoken, and a paused flag. \<open>speaking\<close> holds
  while the queue is not empty; \<open>cancel\<close> empties the queue and leaves the paused flag.
  Utterances are objects: they live in a store, a list indexed by their identity, and
  the queue holds identities. The rate is a finite number.
\<close>

record utterance =
  u_text :: string
  u_rate :: rat
  u_lang :: "string option"
  u_voice :: "voice option"

record speech =
  queue :: "nat list"
  paused :: bool

definition speaking :: "speech \<Rightarrow> bool" where
  "speaking sy = (queue sy \<noteq> [])"

definition speak :: "nat \<Rightarrow> speech \<Rightarrow> speech" where
  "speak u sy = sy\<lparr>queue := queue sy @ [u]\<rparr>"

definition cancel :: "speech \<Rightarrow> speech" where
  "cancel sy = sy\<lparr>queue := []\<rparr>"

definition pause :: "speech \<Rightarrow> speech" where
  "pause sy = sy\<lparr>paused := True\<rparr>"

definition resume :: "speech \<Rightarrow> speech" where
  "resume sy = sy\<lparr>paused := False\<rparr>"

section \<open>The sequencer of the content script\<close>

datatype content_type = Title | Body | Comment

record content_item =
  item_type :: content_type
  item_text :: string
  item_author :: "string option"
  item_depth :: "int option"
  item_id :: "string option"

text \<open>
  The module variables of the content script that playback uses, with: the store of
  utterances; the number of pending \<open>setTimeout(() => readContent(currentIndex), 100)\<close>
  callbacks; and of the document, whether it has a \<open>shreddit-post\<close>, what
  \<open>document.querySelector\<close> does with the selector
  \<open>shreddit-comment[thingid="<id>"]\<close> that \<open>highlightComment\<close> builds from a
  comment id, and what is highlighted. The browser decides about that selector: it throws
  a \<open>SyntaxError\<close> when the text is not a selector (a double quote in the id ends
  the quoted value early), and otherwise gives \<open>null\<close> or the element found, which
  the model names by its \<open>thingid\<close>.
\<close>

datatype error = SyntaxError

text \<open>A function that may throw after it has changed module variables: \<open>Inl\<close> is
  the exception with the state at the throw, \<open>Inr\<close> the state at the return.\<close>

type_synonym 'a outcome = "error \<times> 'a + 'a"

definition stateAfter :: "'a outcome \<Rightarrow> 'a" where
  "stateAfter r = (case r of Inl (e, s) \<Rightarrow> s | Inr s \<Rightarrow> s)"

definition thrown :: "'a outcome \<Rightarrow> error option" where
  "thrown r = (case r of Inl (e, s) \<Rightarrow> Some e | Inr s \<Rightarrow> None)"

record player =
  comments :: "CommentData list"
  currentIndex :: int
  playbackSpeed :: rat
  isPlaying :: bool
  isPaused :: bool
  synthesis :: speech
  currentUtterance :: "nat option"
  filteredVoices :: "voice list"
  useUniqueVoices :: bool
  voiceLocale :: string
  selectedVoiceNames :: "string list"
  postTitle :: string
  postBody :: string
  allContent :: "content_item list"
  utterances :: "utterance list"
  timers :: nat
  hasPost :: bool
  querySelectorComment :: "string \<Rightarrow> error + string option"
  postHighlighted :: bool
  activeComment :: "string option"

definition clearHighlight :: "player \<Rightarrow> player" where
  "clearHighlight s = s\<lparr>activeComment := None, postHighlighted := False\<rparr>"

text \<open>\<open>highlightComment\<close>: the highlight is cleared first; the query may then
  throw, which leaves the function with nothing highlighted.\<close>

definition highlightComment :: "string \<Rightarrow> player \<Rightarrow> player outcome" where
  "highlightComment commentId s =
     (let s1 = clearHighlight s
      in case querySelectorComment s1 commentId of
           Inl e \<Rightarrow> Inl (e, s1)
         | Inr None \<Rightarrow> Inr s1
         | Inr (Some el) \<Rightarrow> Inr (s1\<lparr>activeComment := Some el\<rparr>))"

definition highlightPost :: "player \<Rightarrow> player" where
  "highlightPost s = (if hasPost s then s\<lparr>postHighlighted := True\<rparr> else s)"

text \<open>The \<open>onend\<close> and \<open>onerror\<close> handlers that \<open>readContent\<close> gives every
  utterance. Neither refers to its utterance.\<close>

definition onend :: "player \<Rightarrow> player" where
  "onend s =
     (if currentIndex s < int (length (allContent s)) - 1
      then s\<lparr>currentIndex := currentIndex s + 1, timers := timers s + 1\<rparr>
      else clearHighlight (s\<lparr>isPlaying := False\<rparr>))"

definition onerror :: "player \<Rightarrow> player" where
  "onerror s = s\<lparr>isPlaying := False\<rparr>"

text \<open>\<open>readContent\<close>: an exception of \<open>highlightComment\<close> leaves the
  function before the utterance is created.\<close>

definition readContent :: "int \<Rightarrow> player \<Rightarrow> player outcome" where
  "readContent index s =
     (if index \<ge> int (length (allContent s)) \<or> index < 0 then Inr s
      else
        let item = allContent s ! nat index;
            voice = getVoiceForIndex (filteredVoices s) (useUniqueVoices s)
                      (selectedVoiceNames s) (nat index);
            highlighted =
              (if item_type item = Title then Inr (highlightPost s)
               else if item_type item = Body then Inr (highlightPost s)
               else (case item_id item of
                       None \<Rightarrow> Inr s
                     | Some i \<Rightarrow> if i = [] then Inr s else highlightComment i s))
        in case highlighted of
             Inl exception \<Rightarrow> Inl exception
           | Inr s1 \<Rightarrow>
               let u = \<lparr>u_text = item_text item, u_rate = playbackSpeed s1,
                        u_lang = Some (voiceLocale s1), u_voice = voice\<rparr>;
                   uid = length (utterances s1)
               in Inr (s1\<lparr>utterances := utterances s1 @ [u],
                          currentUtterance := Some uid,
                          synthesis := speak uid (synthesis s1),
                          isPlaying := True,
                          isPaused := False\<rparr>))"

definition cleanup :: "player \<Rightarrow> player" where
  "cleanup s =
     (clearHighlight (s\<lparr>synthesis := cancel (synthesis s)\<rparr>))
       \<lparr>isPlaying := False, isPaused := False, currentUtterance := None\<rparr>"

datatype action =
  Play | Pause | Stop | Next | Previous | SetSpeed rat | ToggleUniqueVoices bool | Cleanup

text \<open>The playback cases of the \<open>onMessage\<close> listener. An exception of
  \<open>readContent\<close> leaves the listener, after what the case did before the call.\<close>

fun onMessage :: "action \<Rightarrow> player \<Rightarrow> player outcome" where
  "onMessage Play s =
     (if paused (synthesis s)
      then Inr (s\<lparr>synthesis := resume (synthesis s), isPaused := False,
                  isPlaying := True\<rparr>)
      else if \<not> speaking (synthesis s) then readContent (currentIndex s) s
      else Inr s)"
| "onMessage Pause s =
     (if speaking (synthesis s)
      then Inr (s\<lparr>synthesis := pause (synthesis s), isPaused := True,
                  isPlaying := False\<rparr>)
      else Inr s)"
| "onMessage Stop s =
     Inr (clearHighlight
       (s\<lparr>synthesis := cancel (synthesis s), currentIndex := 0,
          isPlaying := False, isPaused := False\<rparr>))"
| "onMessage Next s =
     (let s1 = s\<lparr>synthesis := cancel (synthesis s)\<rparr>
      in if currentIndex s1 < int (length (allContent s1)) - 1
         then let s2 = s1\<lparr>currentIndex := currentIndex s1 + 1\<rparr>
              in readContent (currentIndex s2) s2
         else Inr s1)"
| "onMessage Previous s =
     (let s1 = s\<lparr>synthesis := cancel (synthesis s)\<rparr>;
          s2 = (if currentIndex s1 > 0 then s1\<lparr>currentIndex := currentIndex s1 - 1\<rparr>
                else s1)
      in readContent (currentIndex s2) s2)"
| "onMessage (SetSpeed speed) s = Inr (s\<lparr>playbackSpeed := speed\<rparr>)"
| "onMessage (ToggleUniqueVoices enabled) s = Inr (s\<lparr>useUniqueVoices := enabled\<rparr>)"
| "onMessage Cleanup s = Inr (cleanup s)"

text \<open>The queue that the \<open>extractComments\<close> case builds once the expansion and the
  extraction are done: the title and the body when not empty, then the comments.\<close>

definition buildContent :: "string \<Rightarrow> string \<Rightarrow> CommentData list \<Rightarrow> content_item list" where
  "buildContent title bodyText cs =
     (if title \<noteq> [] then
        [\<lparr>item_type = Title, item_text = title, item_author = None,
          item_depth = None, item_id = None\<rparr>]
      else [])
     @ (if bodyText \<noteq> [] then
          [\<lparr>item_type = Body, item_text = bodyText, item_author = None,
            item_depth = None, item_id = None\<rparr>]
        else [])
     @ map (\<lambda>c. \<lparr>item_type = Comment, item_text = text' c, item_author = author c,
                  item_depth = Some (depth c), item_id = Some (id' c)\<rparr>) cs"

definition onExtracted :: "string \<Rightarrow> string \<Rightarrow> CommentData list \<Rightarrow> player \<Rightarrow> player" where
  "onExtracted title bodyText cs s =
     s\<lparr>postTitle := title, postBody := bodyText, comments := cs, currentIndex := 0,
       allContent := buildContent title bodyText cs\<rparr>"

text \<open>What happens to the sequencer: a message, the engine finishing the utterance
  at the head of its queue, a completion or error callback of an utterance that is no
  longer in the queue, an error of the utterance being spoken, a timer firing. Nothing
  catches an exception of the listener or of a timer callback: the module variables stay
  as they were at the throw, and the next event finds them so.\<close>

datatype event =
  Message action | UtteranceEnd | LateEnd | UtteranceError | LateError | TimerFires

fun step :: "event \<Rightarrow> player \<Rightarrow> player" where
  "step (Message a) s = stateAfter (onMessage a s)"
| "step UtteranceEnd s =
     (if queue (synthesis s) = [] then s
      else onend (s\<lparr>synthesis := (synthesis s)\<lparr>queue := tl (queue (synthesis s))\<rparr>\<rparr>))"
| "step LateEnd s = onend s"
| "step UtteranceError s =
     (if queue (synthesis s) = [] then s
      else onerror (s\<lparr>synthesis := (synthesis s)\<lparr>queue := tl (queue (synthesis s))\<rparr>\<rparr>))"
| "step LateError s = onerror s"
| "step TimerFires s =
     (if timers s = 0 then s
      else let s1 = s\<lparr>timers := timers s - 1\<rparr>
           in stateAfter (readContent (currentIndex s1) s1))"

definition run :: "event list \<Rightarrow> player \<Rightarrow> player" where
  "run es s = foldl (\<lambda>s e. step e s) s es"

section \<open>The PlaybackEngine class\<close>

text \<open>
  The fields of \<open>PlaybackEngine\<close> (primed where the content script has a variable of
  the same name), the store of utterances and the number of pending timers. The two
  callbacks \<open>onStateChange\<close> and \<open>onCommentChange\<close> are \<open>null\<close> unless a caller
  registers one; the model is the engine with none registered.
\<close>

record engine_comment =
  ec_text :: string
  ec_author :: "string option"

record PlaybackEngine =
  synthesis' :: speech
  utterance :: "nat option"
  comments' :: "engine_comment list"
  currentIndex' :: int
  playbackSpeed' :: rat
  utterances' :: "utterance list"
  timers' :: nat

definition loadComments :: "engine_comment list \<Rightarrow> PlaybackEngine \<Rightarrow> PlaybackEngine" where
  "loadComments cs this = this\<lparr>comments' := cs, currentIndex' := 0\<rparr>"

definition stop :: "PlaybackEngine \<Rightarrow> PlaybackEngine" where
  "stop this =
     this\<lparr>synthesis' := cancel (synthesis' this), currentIndex' := 0, utterance := None\<rparr>"

definition readComment :: "int \<Rightarrow> PlaybackEngine \<Rightarrow> PlaybackEngine" where
  "readComment index this =
     (if index < 0 \<or> index \<ge> int (length (comments' this)) then this
      else
        let c = comments' this ! nat index;
            u = \<lparr>u_text = ec_text c, u_rate = playbackSpeed' this,
                 u_lang = None, u_voice = None\<rparr>;
            uid = length (utterances' this)
        in this\<lparr>utterances' := utterances' this @ [u],
                utterance := Some uid,
                synthesis' := speak uid (synthesis' this)\<rparr>)"

text \<open>The \<open>onend\<close> handler that \<open>readComment\<close> gives every utterance.\<close>

definition onend' :: "PlaybackEngine \<Rightarrow> PlaybackEngine" where
  "onend' this =
     (if currentIndex' this < int (length (comments' this)) - 1
      then this\<lparr>currentIndex' := currentIndex' this + 1, timers' := timers' this + 1\<rparr>
      else stop this)"

definition play :: "PlaybackEngine \<Rightarrow> PlaybackEngine" where
  "play this =
     (if length (comments' this) = 0 then this
      else if paused (synthesis' this)
      then this\<lparr>synthesis' := resume (synthesis' this)\<rparr>
      else if speaking (synthesis' this) then this
      else readComment (currentIndex' this) this)"

definition pause' :: "PlaybackEngine \<Rightarrow> PlaybackEngine" where
  "pause' this =
     (if speaking (synthesis' this) \<and> \<not> paused (synthesis' this)
      then this\<lparr>synthesis' := pause (synthesis' this)\<rparr>
      else this)"

definition next' :: "PlaybackEngine \<Rightarrow> PlaybackEngine" where
  "next' this =
     (let this1 = this\<lparr>synthesis' := cancel (synthesis' this)\<rparr>
      in if currentIndex' this1 < int (length (comments' this1)) - 1
         then let this2 = this1\<lparr>currentIndex' := currentIndex' this1 + 1\<rparr>
              in readComment (currentIndex' this2) this2
         else stop this1)"

definition previous :: "PlaybackEngine \<Rightarrow> PlaybackEngine" where
  "previous this =
     (let this1 = this\<lparr>synthesis' := cancel (synthesis' this)\<rparr>
      in if currentIndex' this1 > 0
         then let this2 = this1\<lparr>currentIndex' := currentIndex' this1 - 1\<rparr>
              in readComment (currentIndex' this2) this2
         else let this2 = this1\<lparr>currentIndex' := 0\<rparr>
              in readComment (currentIndex' this2) this2)"

text \<open>\<open>setSpeed\<close>: \<open>Math.max(0.5, Math.min(2.0, speed))\<close>, written into the
  object that \<open>this.utterance\<close> refers to when there is one.\<close>

definition setSpeed :: "rat \<Rightarrow> PlaybackEngine \<Rightarrow> PlaybackEngine" where
  "setSpeed speed this =
     (let this1 = this\<lparr>playbackSpeed' := max (1 / 2) (min 2 speed)\<rparr>
      in case utterance this1 of
           None \<Rightarrow> this1
         | Some uid \<Rightarrow>
             this1\<lparr>utterances' :=
               (utterances' this1)[uid := (utterances' this1 ! uid)
                                    \<lparr>u_rate := playbackSpeed' this1\<rparr>]\<rparr>)"

datatype call =
  CallPlay | CallPause | CallStop | CallNext | CallPrevious | CallSetSpeed rat
  | EngineEnd | EngineLateEnd | EngineTimerFires

fun step' :: "call \<Rightarrow> PlaybackEngine \<Rightarrow> PlaybackEngine" where
  "step' CallPlay this = play this"
| "step' CallPause this = pause' this"
| "step' CallStop this = stop this"
| "step' CallNext this = next' this"
| "step' CallPrevious this = previous this"
| "step' (CallSetSpeed r) this = setSpeed r this"
| "step' EngineEnd this =
     (if queue (synthesis' this) = [] then this
      else onend' (this\<lparr>synthesis' :=
             (synthesis' this)\<lparr>queue := tl (queue (synthesis' this))\<rparr>\<rparr>))"
| "step' EngineLateEnd this = onend' this"
| "step' EngineTimerFires this =
     (if timers' this = 0 then this
      else let this1 = this\<lparr>timers' := timers' this - 1\<rparr>
           in readComment (currentIndex' this1) this1)"

definition run' :: "call list \<Rightarrow> PlaybackEngine \<Rightarrow> PlaybackEngine" where
  "run' cs this = foldl (\<lambda>t c. step' c t) this cs"

section \<open>Notions of the specification and sample inputs\<close>

text \<open>The definitions of this section are not translations of source functions. They
  name what the specification speaks of (the restricted pool, a cursor within bounds,
  beginning to speak an item) in terms of the model above, or they are concrete inputs
  on which the model is run.\<close>

text \<open>Following the specification of the voice allocator: the pool restricted to the
  allowlist when that restriction is not empty, and the full pool otherwise.\<close>

definition restrictedPool :: "voice list \<Rightarrow> string list \<Rightarrow> voice list" where
  "restrictedPool pool allowlist =
     (let restriction = filter (\<lambda>v. name v \<in> set allowlist) pool
      in if restriction \<noteq> [] then restriction else pool)"

text \<open>The bound of the specification for a control that the strategy filter admits,
  on its effective depth and the top-level count of its iteration.\<close>

definition withinStrategy :: "strategy \<Rightarrow> int \<Rightarrow> int \<Rightarrow> int \<Rightarrow> nat \<Rightarrow> bool" where
  "withinStrategy strategy maxDepth maxTopLevel d topLevelCount =
     (case strategy of
        Depth \<Rightarrow> d < maxDepth
      | Breadth \<Rightarrow> d \<le> min 2 maxDepth \<and> (d = 0 \<longrightarrow> int topLevelCount < maxTopLevel)
      | Balanced \<Rightarrow> True)"

text \<open>A small document for concrete runs: the state is the number of comments, of
  which three are top-level; four buttons are visible, at effective depths 0, 3, 1
  and 1, the last with a label that is not one of a disclosure control, next to a partial
  without a button; a click loads seven comments; no stop message arrives.\<close>

definition control :: "nat \<Rightarrow> string \<Rightarrow> ancestor list \<Rightarrow> nat faceplate_partial" where
  "control b label ps = \<lparr>firstButton = Some b, textContent = label, parents = ps\<rparr>"

definition under :: "int \<Rightarrow> ancestor list" where
  "under d =
     [\<lparr>tagName = ''DIV'', depthAttribute = None\<rparr>,
      \<lparr>tagName = ''SHREDDIT-COMMENT'', depthAttribute = Some d\<rparr>,
      \<lparr>tagName = ''MAIN'', depthAttribute = None\<rparr>]"

definition samplePartials :: "nat faceplate_partial list" where
  "samplePartials =
     [control 0 ''More comments'' [\<lparr>tagName = ''MAIN'', depthAttribute = None\<rparr>],
      \<lparr>firstButton = None, textContent = [], parents = under 0\<rparr>,
      control 3 ''2 more replies'' (under 2),
      control 1 ''more replies'' (under 0),
      control 4 ''Share'' (under 0)]"

definition sampleDocument :: "(nat, nat) document" where
  "sampleDocument =
     \<lparr>countComments = (\<lambda>w. w),
      countTopLevel = (\<lambda>w. 3),
      faceplatePartials = (\<lambda>w. samplePartials),
      click = (\<lambda>b w. w + 7),
      setTimeout = (\<lambda>ms w. (w, False))\<rparr>"

text \<open>The author and the sanitized text that \<open>extractComments\<close> computes for a
  comment element.\<close>

definition authorOf :: "comment_element \<Rightarrow> string option" where
  "authorOf commentEl =
     (case authorAttr commentEl of
        None \<Rightarrow> None
      | Some a \<Rightarrow> if a = [] then None else Some a)"

definition sanitizedText :: "comment_element \<Rightarrow> string" where
  "sanitizedText commentEl = removeLinks (orElse (map_option trim (contentDiv commentEl)) [])"

text \<open>Three comment elements: one of AutoModerator, one whose text is only a link,
  one of a regular user.\<close>

definition sampleComments :: "comment_element list" where
  "sampleComments =
     [\<lparr>thingidAttr = Some ''t1_a'', authorAttr = Some ''AutoModerator'', depthAttr = Some 0,
       permalinkAttr = Some ''/r/x/a'', contentDiv = Some ''Welcome to r/x''\<rparr>,
      \<lparr>thingidAttr = Some ''t1_b'', authorAttr = Some ''alice'', depthAttr = Some 0,
       permalinkAttr = None, contentDiv = Some '' https://a.io/b ''\<rparr>,
      \<lparr>thingidAttr = None, authorAttr = Some ''carol'', depthAttr = Some 1,
       permalinkAttr = None, contentDiv = Some ''see www.a.io  now''\<rparr>]"

text \<open>A record as the specification describes it: it carries the sanitized text and
  the author of its element, the text is not empty and the author is not filtered.\<close>

definition wellFormed :: "CommentData \<Rightarrow> bool" where
  "wellFormed c \<longleftrightarrow>
     text' c = sanitizedText (element c) \<and> author c = authorOf (element c)
     \<and> text' c \<noteq> [] \<and> \<not> shouldFilterAuthor (author c)"

text \<open>The elements that are to be recorded: the author is not filtered and the
  sanitized text is not empty.\<close>

definition recorded :: "comment_element \<Rightarrow> bool" where
  "recorded e \<longleftrightarrow> \<not> shouldFilterAuthor (authorOf e) \<and> sanitizedText e \<noteq> []"

text \<open>A string in which no two neighbouring characters are both white space.\<close>

fun singleSpaced :: "string \<Rightarrow> bool" where
  "singleSpaced (a # b # cs) = (\<not> (isSpace a \<and> isSpace b) \<and> singleSpaced (b # cs))"
| "singleSpaced cs = True"

text \<open>A sample page for concrete runs: its comments have the given \<open>thingid\<close>s,
  and its \<open>querySelector\<close> rejects the selector of an id that holds a double
  quote.\<close>

definition pageWith :: "string list \<Rightarrow> string \<Rightarrow> error + string option" where
  "pageWith ids commentId =
     (if CHR 0x22 \<in> set commentId then Inl SyntaxError
      else if commentId \<in> set ids then Inr (Some commentId)
      else Inr None)"

text \<open>The content script as it is loaded, for a given list of English voices and a given
  page: the initial values of its module variables, an idle speech engine, no utterance
  and no timer yet. The page is given by whether it has a post and by the \<open>thingid\<close>s
  of a sample page.\<close>

definition initialPlayer :: "voice list \<Rightarrow> bool \<Rightarrow> string list \<Rightarrow> player" where
  "initialPlayer voices post ids =
     \<lparr>comments = [], currentIndex = 0, playbackSpeed = 1, isPlaying = False,
      isPaused = False, synthesis = \<lparr>queue = [], paused = False\<rparr>,
      currentUtterance = None, filteredVoices = voices, useUniqueVoices = True,
      voiceLocale = ''en-US'', selectedVoiceNames = [], postTitle = [], postBody = [],
      allContent = [], utterances = [], timers = 0, hasPost = post,
      querySelectorComment = pageWith ids,
      postHighlighted = False, activeComment = None\<rparr>"


text \<open>A \<open>PlaybackEngine\<close> as its constructor and field initialisers leave it.\<close>

definition newEngine :: PlaybackEngine where
  "newEngine =
     \<lparr>synthesis' = \<lparr>queue = [], paused = False\<rparr>, utterance = None, comments' = [],
      currentIndex' = 0, playbackSpeed' = 1, utterances' = [], timers' = 0\<rparr>"

text \<open>The cursor is within bounds: \<open>0 \<le> cursor \<le> max(0, totalItems - 1)\<close>.\<close>

definition cursorInBounds :: "player \<Rightarrow> bool" where
  "cursorInBounds s \<longleftrightarrow>
     0 \<le> currentIndex s \<and> currentIndex s \<le> max 0 (int (length (allContent s)) - 1)"

definition cursorInBounds' :: "PlaybackEngine \<Rightarrow> bool" where
  "cursorInBounds' this \<longleftrightarrow>
     0 \<le> currentIndex' this \<and> currentIndex' this \<le> max 0 (int (length (comments' this)) - 1)"

text \<open>Highlighting item \<open>i\<close> throws: the item is a comment with an id of which
  the browser rejects the selector.\<close>

definition highlightThrows :: "player \<Rightarrow> nat \<Rightarrow> bool" where
  "highlightThrows s i \<longleftrightarrow>
     item_type (allContent s ! i) = Comment
     \<and> (case item_id (allContent s ! i) of
           None \<Rightarrow> False
         | Some commentId \<Rightarrow> commentId \<noteq> [] \<and> isl (querySelectorComment s commentId))"







section \<open>Properties of the author filter\<close>

lemma toLowerCase_Nil_iff: "toLowerCase s = [] \<longleftrightarrow> s = []"
  by (simp add: toLowerCase_def)

lemma shouldFilterAuthor_lower:
  "toLowerCase s = toLowerCase t \<Longrightarrow> shouldFilterAuthor (Some s) = shouldFilterAuthor (Some t)"
proof -
  assume h: "toLowerCase s = toLowerCase t"
  then have "s = [] \<longleftrightarrow> t = []"
    by (metis toLowerCase_Nil_iff)
  with h show ?thesis
    by (simp add: shouldFilterAuthor_def)
qed

text \<open>
  Claim C4. The author filter never filters an absent author. It filters a name exactly
  when the lowercased name is one of automoderator, automod, moderator, bot, modbot,
  reddit, or contains \<open>bot\<close>, or ends with \<open>bot\<close> or \<open>_bot\<close>, or starts with
  \<open>mod\<close>. Two names with the same lowercase form get the same answer. AutoModerator,
  SomeBot_99 and Moderator_Jane are filtered, regular_user is not.
\<close>

theorem author_filter_characterised:
  "shouldFilterAuthor None = False
   \<and> shouldFilterAuthor (Some s) =
       (let l = toLowerCase s
        in l \<in> {''automoderator'', ''automod'', ''moderator'', ''bot'', ''modbot'', ''reddit''}
           \<or> (\<exists>u v. l = u @ ''bot'' @ v)
           \<or> (\<exists>u. l = u @ ''bot'') \<or> (\<exists>u. l = u @ ''_bot'')
           \<or> (\<exists>v. l = ''mod'' @ v))
   \<and> (toLowerCase s = toLowerCase t \<longrightarrow>
        shouldFilterAuthor (Some s) = shouldFilterAuthor (Some t))
   \<and> shouldFilterAuthor (Some ''AutoModerator'')
   \<and> shouldFilterAuthor (Some ''SomeBot_99'')
   \<and> shouldFilterAuthor (Some ''Moderator_Jane'')
   \<and> \<not> shouldFilterAuthor (Some ''regular_user'')"
proof -
  have none: "shouldFilterAuthor None = False"
    by (simp add: shouldFilterAuthor_def)
  have char: "shouldFilterAuthor (Some s) =
       (let l = toLowerCase s
        in l \<in> {''automoderator'', ''automod'', ''moderator'', ''bot'', ''modbot'', ''reddit''}
           \<or> (\<exists>u v. l = u @ ''bot'' @ v)
           \<or> (\<exists>u. l = u @ ''bot'') \<or> (\<exists>u. l = u @ ''_bot'')
           \<or> (\<exists>v. l = ''mod'' @ v))"
  proof (cases "s = []")
    case True
    then show ?thesis
      by (simp add: shouldFilterAuthor_def toLowerCase_def)
  next
    case False
    then show ?thesis
      by (auto simp: shouldFilterAuthor_def FILTERED_AUTHORS_def includes_js_def endsWith_def
          startsWith_def Let_def sublist_def suffix_def prefix_def)
  qed
  have ci: "toLowerCase s = toLowerCase t \<longrightarrow>
        shouldFilterAuthor (Some s) = shouldFilterAuthor (Some t)"
    using shouldFilterAuthor_lower by blast
  have e1: "shouldFilterAuthor (Some ''AutoModerator'')" by code_simp
  have e2: "shouldFilterAuthor (Some ''SomeBot_99'')" by code_simp
  have e3: "shouldFilterAuthor (Some ''Moderator_Jane'')" by code_simp
  have e4: "\<not> shouldFilterAuthor (Some ''regular_user'')" by code_simp
  from none char ci e1 e2 e3 e4 show ?thesis by blast
qed

theorem author_filter_witness:
  "toLowerCase ''AutoModerator'' = toLowerCase ''AUTOMODERATOR''
   \<and> shouldFilterAuthor (Some ''AutoModerator'') = shouldFilterAuthor (Some ''AUTOMODERATOR'')
   \<and> shouldFilterAuthor (Some ''AUTOMODERATOR'')"
proof -
  have h: "toLowerCase ''AutoModerator'' = toLowerCase ''AUTOMODERATOR''" by code_simp
  from author_filter_characterised [of "''AutoModerator''" "''AUTOMODERATOR''"] h
  show ?thesis by blast
qed

section \<open>Properties of the voice allocator\<close>

lemma restrictedPool_eq:
  "(if length allowlist > 0
    then let chosen = filter (\<lambda>v. name v \<in> set allowlist) pool
         in if length chosen = 0 then pool else chosen
    else pool) = restrictedPool pool allowlist"
  by (cases allowlist) (simp_all add: restrictedPool_def Let_def)

lemma getVoiceForIndex_eq:
  "getVoiceForIndex pool rotateEnabled allowlist i =
     (if pool = [] then None
      else if \<not> rotateEnabled then Some (pool ! 0)
      else Some (restrictedPool pool allowlist ! (i mod length (restrictedPool pool allowlist))))"
  unfolding getVoiceForIndex_def restrictedPool_eq by (simp add: Let_def)

text \<open>
  Claim C6. With an empty pool the allocator returns null; with rotation disabled it
  returns the first voice of the pool; otherwise it returns the voice at position
  \<open>index mod |P|\<close> of \<open>P\<close>, the pool restricted to the allowlist when that restriction
  is not empty and the full pool otherwise. So the result is periodic in the index with
  period \<open>|P|\<close>, and with three voices, rotation enabled and no allowlist, the indices
  0, 3 and 4 get the first, the first and the second voice.
\<close>

theorem voice_round_robin:
  "getVoiceForIndex pool rotateEnabled allowlist i =
     (if pool = [] then None
      else if \<not> rotateEnabled then Some (pool ! 0)
      else Some (restrictedPool pool allowlist ! (i mod length (restrictedPool pool allowlist))))
   \<and> getVoiceForIndex pool rotateEnabled allowlist (i + k * length (restrictedPool pool allowlist))
       = getVoiceForIndex pool rotateEnabled allowlist i
   \<and> getVoiceForIndex [v0, v1, v2] True [] 0 = Some v0
   \<and> getVoiceForIndex [v0, v1, v2] True [] 3 = Some v0
   \<and> getVoiceForIndex [v0, v1, v2] True [] 4 = Some v1"
proof -
  have periodic:
    "getVoiceForIndex pool rotateEnabled allowlist (i + k * length (restrictedPool pool allowlist))
       = getVoiceForIndex pool rotateEnabled allowlist i"
    by (simp add: getVoiceForIndex_eq)
  have three: "restrictedPool [v0, v1, v2] [] = [v0, v1, v2]"
    by (simp add: restrictedPool_def)
  have e0: "getVoiceForIndex [v0, v1, v2] True [] 0 = Some v0"
    by (simp add: getVoiceForIndex_eq three)
  have e3: "getVoiceForIndex [v0, v1, v2] True [] 3 = Some v0"
    by (simp add: getVoiceForIndex_eq three)
  have e4: "getVoiceForIndex [v0, v1, v2] True [] 4 = Some v1"
    by (simp add: getVoiceForIndex_eq three)
  from getVoiceForIndex_eq periodic e0 e3 e4 show ?thesis by blast
qed

theorem voice_round_robin_witness:
  "getVoiceForIndex
     [\<lparr>name = ''Alex'', lang = ''en-US''\<rparr>, \<lparr>name = ''Daniel'', lang = ''en-GB''\<rparr>,
      \<lparr>name = ''Karen'', lang = ''en-AU''\<rparr>] True [''Karen'', ''Alex'', ''Nobody''] 5
     = Some \<lparr>name = ''Karen'', lang = ''en-AU''\<rparr>
   \<and> getVoiceForIndex
     [\<lparr>name = ''Alex'', lang = ''en-US''\<rparr>, \<lparr>name = ''Daniel'', lang = ''en-GB''\<rparr>,
      \<lparr>name = ''Karen'', lang = ''en-AU''\<rparr>] True [''Nobody''] 5
     = Some \<lparr>name = ''Karen'', lang = ''en-AU''\<rparr>
   \<and> getVoiceForIndex
     [\<lparr>name = ''Alex'', lang = ''en-US''\<rparr>, \<lparr>name = ''Daniel'', lang = ''en-GB''\<rparr>,
      \<lparr>name = ''Karen'', lang = ''en-AU''\<rparr>] False [''Karen''] 5
     = Some \<lparr>name = ''Alex'', lang = ''en-US''\<rparr>
   \<and> getVoiceForIndex [] True [''Karen''] 5 = None"
proof -
  let ?pool = "[\<lparr>name = ''Alex'', lang = ''en-US''\<rparr>, \<lparr>name = ''Daniel'', lang = ''en-GB''\<rparr>,
      \<lparr>name = ''Karen'', lang = ''en-AU''\<rparr>]"
  have r1: "restrictedPool ?pool [''Karen'', ''Alex'', ''Nobody'']
      = [\<lparr>name = ''Alex'', lang = ''en-US''\<rparr>, \<lparr>name = ''Karen'', lang = ''en-AU''\<rparr>]"
    by (simp add: restrictedPool_def)
  have r2: "restrictedPool ?pool [''Nobody''] = ?pool"
    by (simp add: restrictedPool_def)
  have a: "getVoiceForIndex ?pool True [''Karen'', ''Alex'', ''Nobody''] 5
             = Some \<lparr>name = ''Karen'', lang = ''en-AU''\<rparr>"
    using voice_round_robin [of ?pool True "[''Karen'', ''Alex'', ''Nobody'']" 5]
    by (simp add: r1 numeral_2_eq_2 [symmetric])
  have b: "getVoiceForIndex ?pool True [''Nobody''] 5 = Some \<lparr>name = ''Karen'', lang = ''en-AU''\<rparr>"
    using voice_round_robin [of ?pool True "[''Nobody'']" 5]
    by (simp add: r2 numeral_3_eq_3 [symmetric])
  have c: "getVoiceForIndex ?pool False [''Karen''] 5 = Some \<lparr>name = ''Alex'', lang = ''en-US''\<rparr>"
    using voice_round_robin [of ?pool False "[''Karen'']" 5] by simp
  have d: "getVoiceForIndex [] True [''Karen''] 5 = None"
    using voice_round_robin [of "[]" True "[''Karen'']" 5] by simp
  from a b c d show ?thesis by blast
qed

section \<open>Properties of the expansion\<close>

lemma sample_buttons:
  "findMoreButtons Breadth 3 2 3 samplePartials = [\<lparr>button = 1, buttonDepth = 1\<rparr>]"
  "findMoreButtons Breadth 3 4 3 samplePartials
     = [\<lparr>button = 0, buttonDepth = 0\<rparr>, \<lparr>button = 1, buttonDepth = 1\<rparr>]"
  "findMoreButtons Depth 4 4 3 samplePartials
     = [\<lparr>button = 3, buttonDepth = 3\<rparr>, \<lparr>button = 1, buttonDepth = 1\<rparr>,
        \<lparr>button = 0, buttonDepth = 0\<rparr>]"
  by code_simp+

lemma sample_run:
  "clicks (expandCommentsToDepth sampleDocument 3 2 12 Breadth 10)
     = [\<lparr>clicked = 1, atDepth = 1, topLevelSeen = 3\<rparr>]"
  by code_simp

text \<open>
  Claim C7. When the document already holds at least \<open>maxTotal\<close> comments, and so
  for every budget with \<open>maxTotal = 0\<close>, the expansion clicks no control, does not
  wait, and returns with the document as it was.
\<close>

theorem expand_at_limit_does_nothing:
  "(maxTotal \<le> 0 \<or> int (countComments D w) \<ge> maxTotal) \<longrightarrow>
     expandCommentsToDepth D targetDepth maxTopLevel maxTotal strategy w
       = \<lparr>doc = w, isExtracting = False, shouldStopExtraction = False,
          extractionProgress = countComments D w, clicks = [], waited = 0\<rparr>"
proof
  assume "maxTotal \<le> 0 \<or> int (countComments D w) \<ge> maxTotal"
  then have "int (countComments D w) \<ge> maxTotal"
    by linarith
  then show "expandCommentsToDepth D targetDepth maxTopLevel maxTotal strategy w
       = \<lparr>doc = w, isExtracting = False, shouldStopExtraction = False,
          extractionProgress = countComments D w, clicks = [], waited = 0\<rparr>"
    by (simp add: expandCommentsToDepth_def Let_def)
qed

theorem expand_at_limit_witness:
  "int (countComments sampleDocument 10) \<ge> 10
   \<and> expandCommentsToDepth sampleDocument 3 50 10 Breadth 10
       = \<lparr>doc = 10, isExtracting = False, shouldStopExtraction = False,
          extractionProgress = 10, clicks = [], waited = 0\<rparr>
   \<and> expandCommentsToDepth sampleDocument 3 50 0 Depth 0
       = \<lparr>doc = 0, isExtracting = False, shouldStopExtraction = False,
          extractionProgress = 0, clicks = [], waited = 0\<rparr>
   \<and> clicks (expandCommentsToDepth sampleDocument 3 2 12 Breadth 10) \<noteq> []"
proof -
  have h: "int (countComments sampleDocument 10) \<ge> 10"
    by (simp add: sampleDocument_def)
  have c: "countComments sampleDocument 10 = 10" "countComments sampleDocument 0 = 0"
    by (simp_all add: sampleDocument_def)
  have a: "expandCommentsToDepth sampleDocument 3 50 10 Breadth 10
       = \<lparr>doc = 10, isExtracting = False, shouldStopExtraction = False,
          extractionProgress = 10, clicks = [], waited = 0\<rparr>"
    using expand_at_limit_does_nothing [of 10 sampleDocument 10 3 50 Breadth] h c by simp
  have b: "expandCommentsToDepth sampleDocument 3 50 0 Depth 0
       = \<lparr>doc = 0, isExtracting = False, shouldStopExtraction = False,
          extractionProgress = 0, clicks = [], waited = 0\<rparr>"
    using expand_at_limit_does_nothing [of 0 sampleDocument 0 3 50 Depth] c by simp
  have d: "clicks (expandCommentsToDepth sampleDocument 3 2 12 Breadth 10) \<noteq> []"
    by (simp add: sample_run)
  from h a b d show ?thesis by blast
qed

lemma admitted_within:
  "admitted strategy targetDepth maxTopLevel topLevelCount d \<Longrightarrow>
   withinStrategy strategy targetDepth maxTopLevel d topLevelCount"
  by (cases strategy) (auto simp: admitted_def withinStrategy_def split: if_splits)

lemma set_sortButtons: "set (sortButtons strategy items) = set items"
  by (cases strategy) (simp_all add: sortButtons_def)

lemma findMoreButtons_admitted:
  "item \<in> set (findMoreButtons strategy targetDepth maxTopLevel topLevelCount ps) \<Longrightarrow>
   admitted strategy targetDepth maxTopLevel topLevelCount (buttonDepth item)"
  by (simp add: findMoreButtons_def set_sortButtons)

lemma clicks_clickOne_foldl:
  "clicks (foldl (clickOne D t) st batch) =
     clicks st @ map (\<lambda>item. \<lparr>clicked = button item, atDepth = buttonDepth item,
                              topLevelSeen = t\<rparr>) batch"
  by (induction batch arbitrary: st) (simp_all add: clickOne_def)

lemma clicks_await: "clicks (await D ms st) = clicks st"
  by (simp add: await_def split: prod.splits)

lemma clickBatches_within:
  assumes "\<forall>e \<in> set (clicks st). W (atDepth e) (topLevelSeen e)"
    and "\<forall>item \<in> set bs. W (buttonDepth item) t"
  shows "\<forall>e \<in> set (clicks (clickBatches D maxTotal strategy t bs st)).
           W (atDepth e) (topLevelSeen e)"
  using assms
proof (induction D maxTotal strategy t bs st rule: clickBatches.induct)
  case (1 D maxTotal strategy t bs st)
  show ?case
  proof (cases "bs = [] \<or> shouldStopExtraction st
                 \<or> int (countComments D (doc st)) \<ge> maxTotal")
    case True
    then show ?thesis
      using "1.prems"(1) by (subst clickBatches.simps) (auto simp: Let_def)
  next
    case False
    let ?st1 = "st\<lparr>extractionProgress := countComments D (doc st)\<rparr>"
    let ?batch = "take (batchSize strategy) bs"
    let ?st2 = "foldl (clickOne D t) ?st1 ?batch"
    let ?st3 = "await D 1000 ?st2"
    have batch: "\<forall>item \<in> set ?batch. W (buttonDepth item) t"
      using "1.prems"(2) by (meson in_set_takeD)
    have st3: "\<forall>e \<in> set (clicks ?st3). W (atDepth e) (topLevelSeen e)"
      using "1.prems"(1) batch by (auto simp: clicks_await clicks_clickOne_foldl)
    have rest: "\<forall>item \<in> set (drop (batchSize strategy) bs). W (buttonDepth item) t"
      using "1.prems"(2) by (meson in_set_dropD)
    have "\<forall>e \<in> set (clicks (clickBatches D maxTotal strategy t
              (drop (batchSize strategy) bs) ?st3)). W (atDepth e) (topLevelSeen e)"
      using False st3 rest by (intro "1.IH") auto
    then show ?thesis
      using False by (subst clickBatches.simps) (simp add: Let_def)
  qed
qed

lemma iteration_within:
  assumes "\<forall>e \<in> set (clicks st).
             withinStrategy strategy targetDepth maxTopLevel (atDepth e) (topLevelSeen e)"
    and "iteration D targetDepth maxTopLevel maxTotal strategy st = r"
    and "r = Break st' \<or> r = Continue st'"
  shows "\<forall>e \<in> set (clicks st').
           withinStrategy strategy targetDepth maxTopLevel (atDepth e) (topLevelSeen e)"
proof -
  let ?W = "withinStrategy strategy targetDepth maxTopLevel"
  let ?st1 = "st\<lparr>extractionProgress := countComments D (doc st)\<rparr>"
  let ?t = "countTopLevel D (doc st)"
  let ?more = "findMoreButtons strategy targetDepth maxTopLevel ?t (faceplatePartials D (doc st))"
  have more: "\<forall>item \<in> set (take n ?more). ?W (buttonDepth item) ?t" for n
    by (meson in_set_takeD findMoreButtons_admitted admitted_within)
  have st1: "\<forall>e \<in> set (clicks ?st1). ?W (atDepth e) (topLevelSeen e)"
    using assms(1) by simp
  have batches: "\<forall>e \<in> set (clicks (clickBatches D maxTotal strategy ?t (take n ?more) ?st1)).
      ?W (atDepth e) (topLevelSeen e)" for n
    using st1 more by (rule clickBatches_within)
  from assms(2,3) show ?thesis
    unfolding iteration_def Let_def
    using st1 batches by (auto simp: clicks_await split: if_splits)
qed

lemma expandLoop_within:
  assumes "\<forall>e \<in> set (clicks st).
             withinStrategy strategy targetDepth maxTopLevel (atDepth e) (topLevelSeen e)"
  shows "\<forall>e \<in> set (clicks (snd (expandLoop D targetDepth maxTopLevel maxTotal strategy
                                      iterations st))).
           withinStrategy strategy targetDepth maxTopLevel (atDepth e) (topLevelSeen e)"
  using assms
proof (induction D targetDepth maxTopLevel maxTotal strategy iterations st
        rule: expandLoop.induct)
  case (1 D targetDepth maxTopLevel maxTotal strategy iterations st)
  show ?case
  proof (cases "iterations < maxIterations \<and> \<not> shouldStopExtraction st")
    case False
    then show ?thesis
      using "1.prems" by (subst expandLoop.simps) auto
  next
    case True
    show ?thesis
    proof (cases "iteration D targetDepth maxTopLevel maxTotal strategy st")
      case (Break st')
      then have "\<forall>e \<in> set (clicks st').
          withinStrategy strategy targetDepth maxTopLevel (atDepth e) (topLevelSeen e)"
        using iteration_within [OF "1.prems"] by blast
      then show ?thesis
        using True Break by (subst expandLoop.simps) simp
    next
      case (Continue st')
      then have "\<forall>e \<in> set (clicks st').
          withinStrategy strategy targetDepth maxTopLevel (atDepth e) (topLevelSeen e)"
        using iteration_within [OF "1.prems"] by blast
      then have "\<forall>e \<in> set (clicks (snd (expandLoop D targetDepth maxTopLevel maxTotal
            strategy (iterations + 1) st'))).
          withinStrategy strategy targetDepth maxTopLevel (atDepth e) (topLevelSeen e)"
        using True Continue by (intro "1.IH") auto
      then show ?thesis
        using True Continue by (subst expandLoop.simps) simp
    qed
  qed
qed

lemma expandCommentsToDepth_within:
  "e \<in> set (clicks (expandCommentsToDepth D targetDepth maxTopLevel maxTotal strategy w))
   \<Longrightarrow> withinStrategy strategy targetDepth maxTopLevel (atDepth e) (topLevelSeen e)"
proof -
  let ?st = "\<lparr>doc = w, isExtracting = True, shouldStopExtraction = False,
               extractionProgress = countComments D w, clicks = [], waited = 0\<rparr>"
  assume e: "e \<in> set (clicks (expandCommentsToDepth D targetDepth maxTopLevel maxTotal
                strategy w))"
  have "\<forall>e \<in> set (clicks ?st).
      withinStrategy strategy targetDepth maxTopLevel (atDepth e) (topLevelSeen e)"
    by simp
  then have "\<forall>e \<in> set (clicks (snd (expandLoop D targetDepth maxTopLevel maxTotal strategy
        0 ?st))).
      withinStrategy strategy targetDepth maxTopLevel (atDepth e) (topLevelSeen e)"
    by (rule expandLoop_within)
  with e show ?thesis
    by (auto simp: expandCommentsToDepth_def Let_def split: if_splits prod.splits)
qed

text \<open>
  Claim C8. In every iteration the controls that the strategy filter admits, and so
  every control that a run clicks, keep to the strategy: under Depth the effective depth
  is below \<open>maxDepth\<close>; under Breadth it is at most \<open>min(2, maxDepth)\<close>, and a
  control of depth 0 is admitted only while the top-level count of the iteration is below
  \<open>maxTopLevel\<close>.
\<close>

theorem admitted_controls_within_strategy:
  "(item \<in> set (findMoreButtons strategy maxDepth maxTopLevel topLevelCount ps) \<longrightarrow>
      (strategy = Depth \<longrightarrow> buttonDepth item < maxDepth)
      \<and> (strategy = Breadth \<longrightarrow>
            buttonDepth item \<le> min 2 maxDepth
            \<and> (buttonDepth item = 0 \<longrightarrow> int topLevelCount < maxTopLevel)))
   \<and> (e \<in> set (clicks (expandCommentsToDepth D maxDepth maxTopLevel maxTotal strategy w))
       \<longrightarrow>
      (strategy = Depth \<longrightarrow> atDepth e < maxDepth)
      \<and> (strategy = Breadth \<longrightarrow>
            atDepth e \<le> min 2 maxDepth
            \<and> (atDepth e = 0 \<longrightarrow> int (topLevelSeen e) < maxTopLevel)))"
proof -
  have a: "withinStrategy strategy maxDepth maxTopLevel (buttonDepth item) topLevelCount"
    if "item \<in> set (findMoreButtons strategy maxDepth maxTopLevel topLevelCount ps)"
    using that by (intro admitted_within findMoreButtons_admitted)
  have b: "withinStrategy strategy maxDepth maxTopLevel (atDepth e) (topLevelSeen e)"
    if "e \<in> set (clicks (expandCommentsToDepth D maxDepth maxTopLevel maxTotal strategy w))"
    using that by (rule expandCommentsToDepth_within)
  from a b show ?thesis
    by (cases strategy) (auto simp: withinStrategy_def)
qed

theorem admitted_controls_witness:
  "\<lparr>button = 1, buttonDepth = 1\<rparr> \<in> set (findMoreButtons Breadth 3 2 3 samplePartials)
   \<and> (1::int) \<le> min 2 3
   \<and> \<lparr>button = 0, buttonDepth = 0\<rparr> \<notin> set (findMoreButtons Breadth 3 2 3 samplePartials)
   \<and> \<lparr>button = 3, buttonDepth = 3\<rparr> \<in> set (findMoreButtons Depth 4 4 3 samplePartials)
   \<and> (3::int) < 4
   \<and> \<lparr>clicked = 1, atDepth = 1, topLevelSeen = 3\<rparr>
       \<in> set (clicks (expandCommentsToDepth sampleDocument 3 2 12 Breadth 10))"
proof -
  have f1: "\<lparr>button = 1, buttonDepth = 1\<rparr> \<in> set (findMoreButtons Breadth 3 2 3 samplePartials)"
    by (simp add: sample_buttons)
  have f2: "(1::int) \<le> min 2 3"
    using f1 admitted_controls_within_strategy
      [of "\<lparr>button = 1, buttonDepth = 1\<rparr>" Breadth 3 2 3 samplePartials]
    by simp
  have f3: "\<lparr>button = 0, buttonDepth = 0\<rparr> \<notin> set (findMoreButtons Breadth 3 2 3 samplePartials)"
    using admitted_controls_within_strategy
      [of "\<lparr>button = 0, buttonDepth = 0\<rparr>" Breadth 3 2 3 samplePartials]
    by auto
  have f4: "\<lparr>button = 3, buttonDepth = 3\<rparr> \<in> set (findMoreButtons Depth 4 4 3 samplePartials)"
    by (simp add: sample_buttons)
  have f5: "(3::int) < 4"
    using f4 admitted_controls_within_strategy
      [of "\<lparr>button = 3, buttonDepth = 3\<rparr>" Depth 4 4 3 samplePartials]
    by simp
  have f6: "\<lparr>clicked = 1, atDepth = 1, topLevelSeen = 3\<rparr>
       \<in> set (clicks (expandCommentsToDepth sampleDocument 3 2 12 Breadth 10))"
    by (simp add: sample_run)
  from f1 f2 f3 f4 f5 f6 show ?thesis by blast
qed

section \<open>Properties of the extraction\<close>

lemma extractOne_cases:
  "extractOne acc e =
     (if shouldFilterAuthor (authorOf e) then (fst acc, snd acc + 1)
      else if sanitizedText e = [] then acc
      else (fst acc @ [\<lparr>id' = (if orElse (thingidAttr e) [] \<noteq> [] then orElse (thingidAttr e) []
                               else ''comment-'' @ decimal (length (fst acc))),
                        text' = sanitizedText e, author = authorOf e,
                        depth = (case depthAttr e of None \<Rightarrow> 0 | Some d \<Rightarrow> d),
                        permalink = orElse (permalinkAttr e)
                          (''#'' @ (if orElse (thingidAttr e) [] \<noteq> [] then orElse (thingidAttr e) []
                                    else ''comment-'' @ decimal (length (fst acc)))),
                        element = e\<rparr>], snd acc))"
  by (simp add: extractOne_def authorOf_def sanitizedText_def Let_def)

lemma elements_extractOne:
  "map element (fst (extractOne acc e))
     = map element (fst acc) @ (if recorded e then [e] else [])"
  by (auto simp: extractOne_cases recorded_def)

lemma count_extractOne:
  "snd (extractOne acc e) = snd acc + (if shouldFilterAuthor (authorOf e) then 1 else 0)"
  by (auto simp: extractOne_cases)

lemma elements_foldl_extractOne:
  "map element (fst (foldl extractOne acc es)) = map element (fst acc) @ filter recorded es"
proof (induction es arbitrary: acc)
  case Nil
  show ?case by simp
next
  case (Cons e es)
  have "map element (fst (foldl extractOne acc (e # es)))
          = map element (fst (extractOne acc e)) @ filter recorded es"
    using Cons.IH [of "extractOne acc e"] by simp
  then show ?case
    by (simp add: elements_extractOne)
qed

lemma count_foldl_extractOne:
  "snd (foldl extractOne acc es)
     = snd acc + length (filter (\<lambda>e. shouldFilterAuthor (authorOf e)) es)"
proof (induction es arbitrary: acc)
  case Nil
  show ?case by simp
next
  case (Cons e es)
  have "snd (foldl extractOne acc (e # es))
          = snd (extractOne acc e) + length (filter (\<lambda>e. shouldFilterAuthor (authorOf e)) es)"
    using Cons.IH [of "extractOne acc e"] by simp
  then show ?case
    by (simp add: count_extractOne)
qed

lemma wellFormed_extractOne:
  assumes "\<forall>c \<in> set (fst acc). wellFormed c"
  shows "\<forall>c \<in> set (fst (extractOne acc e)). wellFormed c"
proof (cases "recorded e")
  case True
  then have "wellFormed \<lparr>id' = i, text' = sanitizedText e, author = authorOf e,
                          depth = d, permalink = p, element = e\<rparr>" for i d p
    by (simp add: wellFormed_def recorded_def)
  with assms True show ?thesis
    by (simp add: extractOne_cases recorded_def)
next
  case False
  with assms show ?thesis
    by (auto simp: extractOne_cases recorded_def)
qed

lemma wellFormed_foldl_extractOne:
  "\<forall>c \<in> set (fst acc). wellFormed c \<Longrightarrow>
   \<forall>c \<in> set (fst (foldl extractOne acc es)). wellFormed c"
proof (induction es arbitrary: acc)
  case Nil
  then show ?case by simp
next
  case (Cons e es)
  have "\<forall>c \<in> set (fst (extractOne acc e)). wellFormed c"
    using Cons.prems by (rule wellFormed_extractOne)
  then show ?case
    using Cons.IH by simp
qed

lemma sample_extraction:
  "extractComments sampleComments =
     ([\<lparr>id' = ''comment-0'', text' = ''see now'', author = Some ''carol'', depth = 1,
        permalink = ''#comment-0'', element = sampleComments ! 2\<rparr>], 1)"
  by code_simp

text \<open>
  Claim C9. Every comment record of an extraction pass has a sanitized text that is
  not empty and an author that the author filter does not filter. The records are, in
  document order, those of the elements whose author is not filtered and whose sanitized
  text is not empty; the elements with a filtered author are counted and not recorded.
\<close>

theorem extracted_records_are_speakable:
  "(\<forall>c \<in> set (fst (extractComments es)).
       text' c \<noteq> [] \<and> \<not> shouldFilterAuthor (author c)
       \<and> text' c = sanitizedText (element c) \<and> author c = authorOf (element c))
   \<and> map element (fst (extractComments es))
       = filter (\<lambda>e. \<not> shouldFilterAuthor (authorOf e) \<and> sanitizedText e \<noteq> []) es
   \<and> snd (extractComments es) = length (filter (\<lambda>e. shouldFilterAuthor (authorOf e)) es)"
proof -
  have "\<forall>c \<in> set (fst (([], 0) :: CommentData list \<times> nat)). wellFormed c"
    by simp
  then have "\<forall>c \<in> set (fst (extractComments es)). wellFormed c"
    unfolding extractComments_def by (rule wellFormed_foldl_extractOne)
  then have a: "\<forall>c \<in> set (fst (extractComments es)).
       text' c \<noteq> [] \<and> \<not> shouldFilterAuthor (author c)
       \<and> text' c = sanitizedText (element c) \<and> author c = authorOf (element c)"
    by (auto simp: wellFormed_def)
  have b: "map element (fst (extractComments es))
       = filter (\<lambda>e. \<not> shouldFilterAuthor (authorOf e) \<and> sanitizedText e \<noteq> []) es"
    using elements_foldl_extractOne [of "([], 0)" es]
    by (simp add: extractComments_def recorded_def [abs_def])
  have c: "snd (extractComments es)
       = length (filter (\<lambda>e. shouldFilterAuthor (authorOf e)) es)"
    using count_foldl_extractOne [of "([], 0)" es] by (simp add: extractComments_def)
  from a b c show ?thesis by blast
qed

theorem extracted_records_witness:
  "fst (extractComments sampleComments)
     = [\<lparr>id' = ''comment-0'', text' = ''see now'', author = Some ''carol'', depth = 1,
         permalink = ''#comment-0'', element = sampleComments ! 2\<rparr>]
   \<and> \<not> shouldFilterAuthor (Some ''carol'')
   \<and> map element (fst (extractComments sampleComments)) = [sampleComments ! 2]
   \<and> snd (extractComments sampleComments) = 1"
proof -
  let ?c = "\<lparr>id' = ''comment-0'', text' = ''see now'', author = Some ''carol'', depth = 1,
         permalink = ''#comment-0'', element = sampleComments ! 2\<rparr>"
  have f: "fst (extractComments sampleComments) = [?c]"
    by (simp add: sample_extraction)
  then have "?c \<in> set (fst (extractComments sampleComments))"
    by simp
  with extracted_records_are_speakable [of sampleComments]
  have "text' ?c \<noteq> [] \<and> \<not> shouldFilterAuthor (author ?c)"
    by blast
  then have g: "\<not> shouldFilterAuthor (Some ''carol'')"
    by simp
  have h: "map element (fst (extractComments sampleComments)) = [sampleComments ! 2]"
    by (simp add: f)
  have k: "snd (extractComments sampleComments) = 1"
    by (simp add: sample_extraction)
  from f g h k show ?thesis by blast
qed

section \<open>Properties of the link removal\<close>

lemma span_run:
  "\<forall>x \<in> set tok. P x \<Longrightarrow> rest = [] \<or> \<not> P (hd rest) \<Longrightarrow>
   takeWhile P (tok @ rest) = tok \<and> dropWhile P (tok @ rest) = rest"
  by (cases rest) (auto simp: takeWhile_tail dropWhile_append3)

lemma replaceAll_match:
  "m prev s = Some (k, rep) \<Longrightarrow> 0 < k \<Longrightarrow> k \<le> length s \<Longrightarrow>
   replaceAll m prev s = rep @ replaceAll m (Some (s ! (k - 1))) (drop k s)"
  by (cases s; cases k) simp_all

lemma markdownLink_match:
  assumes "label \<noteq> []" "CHR '']'' \<notin> set label" "url \<noteq> []" "CHR '')'' \<notin> set url"
  shows "markdownLink prev (''['' @ label @ ''](''  @ url @ '')'' @ rest)
           = Some (length label + length url + 4, label)"
proof -
  have l: "takeWhile (\<lambda>x. x \<noteq> CHR '']'') (label @ ''](''  @ url @ '')'' @ rest) = label
         \<and> dropWhile (\<lambda>x. x \<noteq> CHR '']'') (label @ ''](''  @ url @ '')'' @ rest)
             = ''](''  @ url @ '')'' @ rest"
    using assms(2) by (intro span_run) auto
  have u: "takeWhile (\<lambda>x. x \<noteq> CHR '')'') (url @ '')'' @ rest) = url
         \<and> dropWhile (\<lambda>x. x \<noteq> CHR '')'') (url @ '')'' @ rest) = '')'' @ rest"
    using assms(4) by (intro span_run) auto
  show ?thesis
    using assms(1,3) l u by (simp add: markdownLink_def Let_def)
qed

lemma markdownLink_replaced:
  assumes "label \<noteq> []" "CHR '']'' \<notin> set label" "url \<noteq> []" "CHR '')'' \<notin> set url"
  shows "replaceAll markdownLink prev (''['' @ label @ ''](''  @ url @ '')'' @ rest)
           = label @ replaceAll markdownLink (Some CHR '')'') rest"
proof -
  let ?s = "''['' @ label @ ''](''  @ url @ '')'' @ rest"
  let ?k = "length label + length url + 4"
  have s: "?s = (''['' @ label @ ''](''  @ url) @ CHR '')'' # rest"
    by simp
  have len: "?k - 1 = length (''['' @ label @ ''](''  @ url)"
    by simp
  have nth: "?s ! (?k - 1) = CHR '')''"
    unfolding len by (subst s) (rule nth_append_length)
  have whole: "?s = (''['' @ label @ ''](''  @ url @ '')'') @ rest"
    by simp
  have k: "?k = length (''['' @ label @ ''](''  @ url @ '')'')"
    by simp
  have drop: "drop ?k ?s = rest"
    using whole k by (metis append_eq_conv_conj)
  have "replaceAll markdownLink prev ?s
          = label @ replaceAll markdownLink (Some (?s ! (?k - 1))) (drop ?k ?s)"
    using markdownLink_match [OF assms] by (intro replaceAll_match) simp_all
  then show ?thesis
    by (simp only: nth drop)
qed

lemma literalThenNonSpace_match:
  assumes "tok \<noteq> []" "\<forall>c \<in> set tok. \<not> isSpace c" "rest = [] \<or> isSpace (hd rest)"
  shows "literalThenNonSpace lit (lit @ tok @ rest) = Some (length lit + length tok, [])"
proof -
  have "takeWhile (\<lambda>x. \<not> isSpace x) (tok @ rest) = tok"
    using assms(2,3) span_run [of tok "\<lambda>x. \<not> isSpace x" rest] by simp
  then show ?thesis
    using assms(1) by (simp add: literalThenNonSpace_def)
qed

lemma removed_after_literal:
  assumes "m prev (lit @ tok @ rest) = Some (length lit + length tok, [])" "tok \<noteq> []"
  shows "replaceAll m prev (lit @ tok @ rest) = replaceAll m (Some (last tok)) rest"
proof -
  let ?s = "lit @ tok @ rest"
  let ?k = "length lit + length tok"
  have "?s ! (?k - 1) = (lit @ tok) ! (length (lit @ tok) - 1)"
    using assms(2) by (simp add: nth_append)
  also have "\<dots> = last (lit @ tok)"
    using assms(2) by (subst last_conv_nth) simp_all
  finally have nth: "?s ! (?k - 1) = last tok"
    using assms(2) by simp
  have drop: "drop ?k ?s = rest"
    by simp
  have "replaceAll m prev ?s = [] @ replaceAll m (Some (?s ! (?k - 1))) (drop ?k ?s)"
    using assms by (intro replaceAll_match) simp_all
  then show ?thesis
    by (simp only: nth drop append_Nil)
qed

lemma plainUrl_removed:
  assumes "tok \<noteq> []" "\<forall>c \<in> set tok. \<not> isSpace c" "rest = [] \<or> isSpace (hd rest)"
  shows "replaceAll plainUrl prev (''http://'' @ tok @ rest)
           = replaceAll plainUrl (Some (last tok)) rest"
    and "replaceAll plainUrl prev (''https://'' @ tok @ rest)
           = replaceAll plainUrl (Some (last tok)) rest"
proof -
  have no: "literalThenNonSpace ''https://'' (''http://'' @ tok @ rest) = None"
    by (simp add: literalThenNonSpace_def)
  have m1: "literalThenNonSpace ''http://'' (''http://'' @ tok @ rest)
              = Some (length ''http://'' + length tok, [])"
    by (rule literalThenNonSpace_match [OF assms])
  have "plainUrl prev (''http://'' @ tok @ rest) = Some (length ''http://'' + length tok, [])"
    by (simp only: plainUrl_def no m1 option.case)
  then show "replaceAll plainUrl prev (''http://'' @ tok @ rest)
           = replaceAll plainUrl (Some (last tok)) rest"
    using assms(1) by (rule removed_after_literal)
  have m2: "literalThenNonSpace ''https://'' (''https://'' @ tok @ rest)
              = Some (length ''https://'' + length tok, [])"
    by (rule literalThenNonSpace_match [OF assms])
  have "plainUrl prev (''https://'' @ tok @ rest) = Some (length ''https://'' + length tok, [])"
    by (simp only: plainUrl_def m2 option.case)
  then show "replaceAll plainUrl prev (''https://'' @ tok @ rest)
           = replaceAll plainUrl (Some (last tok)) rest"
    using assms(1) by (rule removed_after_literal)
qed

lemma wwwUrl_removed:
  assumes "tok \<noteq> []" "\<forall>c \<in> set tok. \<not> isSpace c" "rest = [] \<or> isSpace (hd rest)"
  shows "replaceAll wwwUrl prev (''www.'' @ tok @ rest)
           = replaceAll wwwUrl (Some (last tok)) rest"
proof -
  have "wwwUrl prev (''www.'' @ tok @ rest) = Some (length ''www.'' + length tok, [])"
    unfolding wwwUrl_def by (rule literalThenNonSpace_match [OF assms])
  then show ?thesis
    using assms(1) by (rule removed_after_literal)
qed

lemma slashRef_removed:
  assumes "isWord letter" "\<not> (case prev of None \<Rightarrow> False | Some p \<Rightarrow> isWord p)"
    and "w \<noteq> []" "\<forall>c \<in> set w. isWord c" "rest = [] \<or> \<not> isWord (hd rest)"
  shows "replaceAll (slashRef letter) prev ([letter, CHR ''/''] @ w @ rest)
           = replaceAll (slashRef letter) (Some (last w)) rest"
proof -
  have b: "wordBoundary prev ([letter, CHR ''/''] @ w @ rest)"
    using assms(1,2) by (simp add: wordBoundary_def)
  have "takeWhile isWord (w @ rest) = w"
    using assms(4,5) span_run [of w isWord rest] by simp
  then have "slashRef letter prev ([letter, CHR ''/''] @ w @ rest)
               = Some (length [letter, CHR ''/''] + length w, [])"
    using b assms(3) by (simp add: slashRef_def)
  then show ?thesis
    using assms(3) by (rule removed_after_literal)
qed

text \<open>Conversely, what a matcher reports is a match of its regular expression: the
  string begins with a markdown link whose label is the replacement, with a literal
  followed by its run, or with a reference at a word boundary.\<close>

lemma markdownLink_sound:
  assumes "markdownLink prev s = Some (k, rep)"
  shows "\<exists>url rest. s = ''['' @ rep @ ''](''  @ url @ '')'' @ rest
           \<and> rep \<noteq> [] \<and> CHR '']'' \<notin> set rep \<and> url \<noteq> [] \<and> CHR '')'' \<notin> set url
           \<and> k = length rep + length url + 4"
proof -
  obtain r1 where s: "s = CHR ''['' # r1"
    using assms by (cases s) (auto simp: markdownLink_def split: if_splits)
  let ?label = "takeWhile (\<lambda>x. x \<noteq> CHR '']'') r1"
  let ?r2 = "dropWhile (\<lambda>x. x \<noteq> CHR '']'') r1"
  let ?r3 = "drop 2 ?r2"
  let ?url = "takeWhile (\<lambda>x. x \<noteq> CHR '')'') ?r3"
  let ?r4 = "dropWhile (\<lambda>x. x \<noteq> CHR '')'') ?r3"
  have m: "?label \<noteq> []" "prefix ''](''  ?r2" "?url \<noteq> []" "prefix '')'' ?r4"
    "k = length ?label + length ?url + 4" "rep = ?label"
    using assms unfolding s by (auto simp: markdownLink_def Let_def split: if_splits)
  obtain rest where r4: "?r4 = '')'' @ rest"
    using m(4) by (auto simp: prefix_def)
  have r2: "?r2 = ''](''  @ ?r3"
    using m(2) by (auto simp: prefix_def)
  have "r1 = ?label @ ?r2"
    by simp
  also have "\<dots> = ?label @ ''](''  @ ?r3"
    using r2 by simp
  also have "?r3 = ?url @ ?r4"
    by simp
  finally have "r1 = ?label @ ''](''  @ ?url @ '')'' @ rest"
    using r4 by simp
  then have whole: "s = ''['' @ rep @ ''](''  @ ?url @ '')'' @ rest"
    using s m(6) by simp
  have l: "CHR '']'' \<notin> set ?label"
    by (metis (mono_tags, lifting) set_takeWhileD)
  have u: "CHR '')'' \<notin> set ?url"
    by (metis (mono_tags, lifting) set_takeWhileD)
  from whole m l u show ?thesis
    by blast
qed

lemma literalThenNonSpace_sound:
  assumes "literalThenNonSpace lit s = Some (k, rep)"
  shows "\<exists>tok rest. s = lit @ tok @ rest \<and> tok \<noteq> [] \<and> (\<forall>c \<in> set tok. \<not> isSpace c)
           \<and> (rest = [] \<or> isSpace (hd rest)) \<and> k = length lit + length tok \<and> rep = []"
proof -
  let ?after = "drop (length lit) s"
  let ?tok = "takeWhile (\<lambda>x. \<not> isSpace x) ?after"
  let ?rest = "dropWhile (\<lambda>x. \<not> isSpace x) ?after"
  have m: "prefix lit s" "?tok \<noteq> []" "k = length lit + length ?tok" "rep = []"
    using assms by (auto simp: literalThenNonSpace_def Let_def split: if_splits)
  have "s = lit @ ?after"
    using m(1) by (auto simp: prefix_def)
  then have whole: "s = lit @ ?tok @ ?rest"
    by simp
  have t: "\<forall>c \<in> set ?tok. \<not> isSpace c"
    by (metis (mono_tags, lifting) set_takeWhileD)
  have r: "?rest = [] \<or> isSpace (hd ?rest)"
    using hd_dropWhile [of "\<lambda>x. \<not> isSpace x" ?after] by blast
  from whole m t r show ?thesis
    by blast
qed

lemma slashRef_sound:
  assumes "slashRef letter prev s = Some (k, rep)"
  shows "\<exists>w rest. s = [letter, CHR ''/''] @ w @ rest \<and> wordBoundary prev s
           \<and> w \<noteq> [] \<and> (\<forall>c \<in> set w. isWord c) \<and> (rest = [] \<or> \<not> isWord (hd rest))
           \<and> k = 2 + length w \<and> rep = []"
proof -
  let ?after = "drop 2 s"
  let ?w = "takeWhile isWord ?after"
  let ?rest = "dropWhile isWord ?after"
  have m: "wordBoundary prev s" "prefix [letter, CHR ''/''] s" "?w \<noteq> []"
    "k = 2 + length ?w" "rep = []"
    using assms by (auto simp: slashRef_def Let_def split: if_splits)
  have "s = [letter, CHR ''/''] @ ?after"
    using m(2) by (auto simp: prefix_def)
  then have whole: "s = [letter, CHR ''/''] @ ?w @ ?rest"
    by simp
  have t: "\<forall>c \<in> set ?w. isWord c"
    by (metis (mono_tags, lifting) set_takeWhileD)
  have r: "?rest = [] \<or> \<not> isWord (hd ?rest)"
    using hd_dropWhile [of isWord ?after] by blast
  from whole m t r show ?thesis
    by blast
qed

lemma singleSpaced_Cons:
  "singleSpaced (a # cs) \<longleftrightarrow> (cs = [] \<or> \<not> (isSpace a \<and> isSpace (hd cs))) \<and> singleSpaced cs"
  by (cases cs) auto

lemma singleSpaced_append:
  "singleSpaced (xs @ ys) \<Longrightarrow> singleSpaced xs \<and> singleSpaced ys"
proof (induction xs)
  case Nil
  then show ?case by simp
next
  case (Cons a xs)
  then show ?case
    by (cases xs) (auto simp: singleSpaced_Cons)
qed

lemma spaces_at_space:
  "isSpace c \<Longrightarrow>
   spaces prev (c # cs) = Some (Suc (length (takeWhile isSpace cs)), '' '')"
  by (simp add: spaces_def)

lemma spaces_at_other: "\<not> isSpace c \<Longrightarrow> spaces prev (c # cs) = None"
  by (simp add: spaces_def)

lemma collapsed:
  "singleSpaced (replaceAll spaces prev s)
   \<and> (\<forall>c \<in> set (replaceAll spaces prev s). isSpace c \<longrightarrow> c = CHR '' '')
   \<and> (replaceAll spaces prev s \<noteq> [] \<and> isSpace (hd (replaceAll spaces prev s))
        \<longrightarrow> s \<noteq> [] \<and> isSpace (hd s))"
proof (induction s arbitrary: prev rule: length_induct)
  case (1 s)
  show ?case
  proof (cases s)
    case Nil
    then show ?thesis by simp
  next
    case (Cons c cs)
    show ?thesis
    proof (cases "isSpace c")
      case False
      have "length cs < length s"
        using Cons by simp
      then have ih: "singleSpaced (replaceAll spaces (Some c) cs)
          \<and> (\<forall>x \<in> set (replaceAll spaces (Some c) cs). isSpace x \<longrightarrow> x = CHR '' '')"
        using "1.IH" by blast
      have "replaceAll spaces prev s = c # replaceAll spaces (Some c) cs"
        using Cons False by (simp add: spaces_at_other)
      then show ?thesis
        using ih False Cons by (simp add: singleSpaced_Cons)
    next
      case True
      let ?rest = "dropWhile isSpace cs"
      let ?p = "Some ((c # cs) ! length (takeWhile isSpace cs))"
      have "length ?rest < length s"
        using Cons by (simp add: length_dropWhile_le le_imp_less_Suc)
      then have ih: "singleSpaced (replaceAll spaces ?p ?rest)
          \<and> (\<forall>x \<in> set (replaceAll spaces ?p ?rest). isSpace x \<longrightarrow> x = CHR '' '')
          \<and> (replaceAll spaces ?p ?rest \<noteq> [] \<and> isSpace (hd (replaceAll spaces ?p ?rest))
               \<longrightarrow> ?rest \<noteq> [] \<and> isSpace (hd ?rest))"
        using "1.IH" by blast
      have no: "\<not> (?rest \<noteq> [] \<and> isSpace (hd ?rest))"
        using hd_dropWhile [of isSpace cs] by blast
      have "replaceAll spaces prev s = CHR '' '' # replaceAll spaces ?p ?rest"
        using Cons True by (simp add: spaces_at_space dropWhile_eq_drop)
      then show ?thesis
        using ih no True Cons by (auto simp: singleSpaced_Cons)
    qed
  qed
qed

lemma trim_infix: "\<exists>pre post. s = pre @ trim s @ post"
proof -
  let ?y = "dropWhile isSpace s"
  have "s = takeWhile isSpace s @ ?y"
    by simp
  moreover have "rev ?y = takeWhile isSpace (rev ?y) @ dropWhile isSpace (rev ?y)"
    by simp
  then have "?y = rev (dropWhile isSpace (rev ?y)) @ rev (takeWhile isSpace (rev ?y))"
    by (metis rev_append rev_rev_ident)
  ultimately have "s = takeWhile isSpace s @ trim s @ rev (takeWhile isSpace (rev ?y))"
    by (simp add: trim_def)
  then show ?thesis by blast
qed

lemma trim_ends:
  "trim s \<noteq> [] \<Longrightarrow> \<not> isSpace (hd (trim s)) \<and> \<not> isSpace (last (trim s))"
proof -
  let ?y = "dropWhile isSpace s"
  let ?z = "dropWhile isSpace (rev ?y)"
  assume ne: "trim s \<noteq> []"
  then have z: "?z \<noteq> []"
    by (simp add: trim_def)
  have y: "?y \<noteq> []"
  proof
    assume "?y = []"
    then have "?z = []" by (simp only: rev.simps(1) dropWhile.simps(1))
    with z show False by blast
  qed
  have l: "\<not> isSpace (last (trim s))"
    using z hd_dropWhile [of isSpace "rev ?y"] by (simp add: trim_def last_rev)
  have "last ?z = last (rev ?y)"
    using z by (metis last_appendR takeWhile_dropWhile_id)
  then have "hd (trim s) = hd ?y"
    using z y by (simp add: trim_def hd_rev last_rev)
  then have "\<not> isSpace (hd (trim s))"
    using y hd_dropWhile [of isSpace s] by simp
  with l show ?thesis by blast
qed

lemma removeLinks_normal:
  "singleSpaced (removeLinks t)
   \<and> (\<forall>c \<in> set (removeLinks t). isSpace c \<longrightarrow> c = CHR '' '')
   \<and> (removeLinks t \<noteq> [] \<longrightarrow>
        \<not> isSpace (hd (removeLinks t)) \<and> \<not> isSpace (last (removeLinks t)))"
proof -
  obtain u where r: "removeLinks t = trim (replaceAll spaces None u)"
    by (simp add: removeLinks_def replace_def Let_def)
  let ?c = "replaceAll spaces None u"
  obtain pre post where c: "?c = pre @ trim ?c @ post"
    using trim_infix by blast
  have "singleSpaced ?c"
    using collapsed by blast
  then have "singleSpaced (pre @ trim ?c @ post)"
    using c by simp
  then have a: "singleSpaced (trim ?c)"
    using singleSpaced_append by blast
  have "set (trim ?c) \<subseteq> set ?c"
    using c by (metis Un_upper1 Un_upper2 set_append subset_trans)
  then have b: "\<forall>x \<in> set (trim ?c). isSpace x \<longrightarrow> x = CHR '' ''"
    using collapsed [of None u] by blast
  have d: "trim ?c \<noteq> [] \<longrightarrow> \<not> isSpace (hd (trim ?c)) \<and> \<not> isSpace (last (trim ?c))"
    using trim_ends [of ?c] by blast
  from a b d show ?thesis
    unfolding r by blast
qed

lemma removeLinks_example:
  "removeLinks ''Check [this](http://x.com/y) out at https://example.com and r/funny, u/bob''
     = ''Check this out at and ,''"
  by code_simp

text \<open>
  Claim C5. The link stripper is the chain of six replacements followed by a trim.
  A markdown link \<open>[label](url)\<close> is replaced by its label; a run of characters that
  are not white space behind \<open>http://\<close>, \<open>https://\<close> or \<open>www.\<close> is removed with
  that prefix; a run of word characters behind \<open>r/\<close> or \<open>u/\<close> at a word boundary
  is removed with that prefix. In the result every white-space character is a single
  space between two other characters. The example of the specification evaluates to
  \<open>Check this out at and ,\<close>.
\<close>

theorem removeLinks_strips_links:
  "removeLinks t
     = trim (replace spaces (replace (slashRef CHR ''u'') (replace (slashRef CHR ''r'')
         (replace wwwUrl (replace plainUrl (replace markdownLink t))))))
   \<and> (label \<noteq> [] \<and> CHR '']'' \<notin> set label \<and> url \<noteq> [] \<and> CHR '')'' \<notin> set url \<longrightarrow>
        replaceAll markdownLink prev (''['' @ label @ ''](''  @ url @ '')'' @ rest)
          = label @ replaceAll markdownLink (Some CHR '')'') rest)
   \<and> (tok \<noteq> [] \<and> (\<forall>c \<in> set tok. \<not> isSpace c) \<and> (rest = [] \<or> isSpace (hd rest)) \<longrightarrow>
        replaceAll plainUrl prev (''http://'' @ tok @ rest)
          = replaceAll plainUrl (Some (last tok)) rest
        \<and> replaceAll plainUrl prev (''https://'' @ tok @ rest)
          = replaceAll plainUrl (Some (last tok)) rest
        \<and> replaceAll wwwUrl prev (''www.'' @ tok @ rest)
          = replaceAll wwwUrl (Some (last tok)) rest)
   \<and> (\<not> (case prev of None \<Rightarrow> False | Some p \<Rightarrow> isWord p)
        \<and> w \<noteq> [] \<and> (\<forall>c \<in> set w. isWord c) \<and> (rest = [] \<or> \<not> isWord (hd rest)) \<longrightarrow>
        replaceAll (slashRef CHR ''r'') prev (''r/'' @ w @ rest)
          = replaceAll (slashRef CHR ''r'') (Some (last w)) rest
        \<and> replaceAll (slashRef CHR ''u'') prev (''u/'' @ w @ rest)
          = replaceAll (slashRef CHR ''u'') (Some (last w)) rest)
   \<and> singleSpaced (removeLinks t)
   \<and> (\<forall>c \<in> set (removeLinks t). isSpace c \<longrightarrow> c = CHR '' '')
   \<and> (removeLinks t \<noteq> [] \<longrightarrow>
        \<not> isSpace (hd (removeLinks t)) \<and> \<not> isSpace (last (removeLinks t)))
   \<and> removeLinks
         ''Check [this](http://x.com/y) out at https://example.com and r/funny, u/bob''
       = ''Check this out at and ,''"
proof -
  have chain: "removeLinks t
     = trim (replace spaces (replace (slashRef CHR ''u'') (replace (slashRef CHR ''r'')
         (replace wwwUrl (replace plainUrl (replace markdownLink t))))))"
    by (simp add: removeLinks_def Let_def)
  have md: "label \<noteq> [] \<and> CHR '']'' \<notin> set label \<and> url \<noteq> [] \<and> CHR '')'' \<notin> set url \<longrightarrow>
        replaceAll markdownLink prev (''['' @ label @ ''](''  @ url @ '')'' @ rest)
          = label @ replaceAll markdownLink (Some CHR '')'') rest"
  proof (intro impI, elim conjE)
    assume "label \<noteq> []" "CHR '']'' \<notin> set label" "url \<noteq> []" "CHR '')'' \<notin> set url"
    then show "replaceAll markdownLink prev (''['' @ label @ ''](''  @ url @ '')'' @ rest)
          = label @ replaceAll markdownLink (Some CHR '')'') rest"
      by (rule markdownLink_replaced)
  qed
  have urls: "tok \<noteq> [] \<and> (\<forall>c \<in> set tok. \<not> isSpace c) \<and> (rest = [] \<or> isSpace (hd rest)) \<longrightarrow>
        replaceAll plainUrl prev (''http://'' @ tok @ rest)
          = replaceAll plainUrl (Some (last tok)) rest
        \<and> replaceAll plainUrl prev (''https://'' @ tok @ rest)
          = replaceAll plainUrl (Some (last tok)) rest
        \<and> replaceAll wwwUrl prev (''www.'' @ tok @ rest)
          = replaceAll wwwUrl (Some (last tok)) rest"
  proof (intro impI, elim conjE)
    assume a: "tok \<noteq> []" "\<forall>c \<in> set tok. \<not> isSpace c" "rest = [] \<or> isSpace (hd rest)"
    show "replaceAll plainUrl prev (''http://'' @ tok @ rest)
          = replaceAll plainUrl (Some (last tok)) rest
        \<and> replaceAll plainUrl prev (''https://'' @ tok @ rest)
          = replaceAll plainUrl (Some (last tok)) rest
        \<and> replaceAll wwwUrl prev (''www.'' @ tok @ rest)
          = replaceAll wwwUrl (Some (last tok)) rest"
      by (intro conjI plainUrl_removed wwwUrl_removed a)
  qed
  have wr: "isWord CHR ''r''" and wu: "isWord CHR ''u''"
    by (simp_all add: isWord_def)
  have refs: "\<not> (case prev of None \<Rightarrow> False | Some p \<Rightarrow> isWord p)
        \<and> w \<noteq> [] \<and> (\<forall>c \<in> set w. isWord c) \<and> (rest = [] \<or> \<not> isWord (hd rest)) \<longrightarrow>
        replaceAll (slashRef CHR ''r'') prev (''r/'' @ w @ rest)
          = replaceAll (slashRef CHR ''r'') (Some (last w)) rest
        \<and> replaceAll (slashRef CHR ''u'') prev (''u/'' @ w @ rest)
          = replaceAll (slashRef CHR ''u'') (Some (last w)) rest"
  proof (intro impI, elim conjE)
    assume a: "\<not> (case prev of None \<Rightarrow> False | Some p \<Rightarrow> isWord p)" "w \<noteq> []"
      "\<forall>c \<in> set w. isWord c" "rest = [] \<or> \<not> isWord (hd rest)"
    have r: "replaceAll (slashRef CHR ''r'') prev ([CHR ''r'', CHR ''/''] @ w @ rest)
          = replaceAll (slashRef CHR ''r'') (Some (last w)) rest"
      using wr a by (rule slashRef_removed)
    have u: "replaceAll (slashRef CHR ''u'') prev ([CHR ''u'', CHR ''/''] @ w @ rest)
          = replaceAll (slashRef CHR ''u'') (Some (last w)) rest"
      using wu a by (rule slashRef_removed)
    from r u show "replaceAll (slashRef CHR ''r'') prev (''r/'' @ w @ rest)
          = replaceAll (slashRef CHR ''r'') (Some (last w)) rest
        \<and> replaceAll (slashRef CHR ''u'') prev (''u/'' @ w @ rest)
          = replaceAll (slashRef CHR ''u'') (Some (last w)) rest"
      by (intro conjI)
  qed
  have n1: "singleSpaced (removeLinks t)"
    and n2: "\<forall>c \<in> set (removeLinks t). isSpace c \<longrightarrow> c = CHR '' ''"
    and n3: "removeLinks t \<noteq> [] \<longrightarrow>
        \<not> isSpace (hd (removeLinks t)) \<and> \<not> isSpace (last (removeLinks t))"
    using removeLinks_normal [of t] by (rule conjunct1, rule conjunct2 [THEN conjunct1],
        rule conjunct2 [THEN conjunct2])
  show ?thesis
    by (intro conjI) (rule chain md urls refs n1 n2 n3 removeLinks_example)+
qed

theorem removeLinks_witness:
  "replaceAll markdownLink None (''['' @ ''this'' @ ''](''  @ ''http://x.com/y'' @ '')'' @ '' out'')
     = ''this'' @ replaceAll markdownLink (Some CHR '')'') '' out''
   \<and> replaceAll plainUrl None (''https://'' @ ''example.com'' @ '' out'')
     = replaceAll plainUrl (Some (last ''example.com'')) '' out''
   \<and> replaceAll (slashRef CHR ''r'') None (''r/'' @ ''funny'' @ '' out'')
     = replaceAll (slashRef CHR ''r'') (Some (last ''funny'')) '' out''
   \<and> singleSpaced (removeLinks ''a  [b](c) \<newline> d '')
   \<and> removeLinks ''a  [b](c) \<newline> d '' = ''a b d''"
proof -
  note T = removeLinks_strips_links [where t = "''a  [b](c) \<newline> d ''" and label = "''this''"
      and url = "''http://x.com/y''" and prev = None and rest = "'' out''"
      and tok = "''example.com''" and w = "''funny''"]
  have h1: "''this'' \<noteq> [] \<and> CHR '']'' \<notin> set ''this'' \<and> ''http://x.com/y'' \<noteq> []
            \<and> CHR '')'' \<notin> set ''http://x.com/y''"
    by simp
  have h2: "''example.com'' \<noteq> [] \<and> (\<forall>c \<in> set ''example.com''. \<not> isSpace c)
            \<and> ('' out'' = [] \<or> isSpace (hd '' out''))"
    by (simp add: isSpace_def)
  have h3: "\<not> (case None of None \<Rightarrow> False | Some p \<Rightarrow> isWord p)
            \<and> ''funny'' \<noteq> [] \<and> (\<forall>c \<in> set ''funny''. isWord c)
            \<and> ('' out'' = [] \<or> \<not> isWord (hd '' out''))"
    by (simp add: isWord_def)
  have e: "removeLinks ''a  [b](c) \<newline> d '' = ''a b d''"
    by code_simp
  have c1: "replaceAll markdownLink None
        (''['' @ ''this'' @ ''](''  @ ''http://x.com/y'' @ '')'' @ '' out'')
      = ''this'' @ replaceAll markdownLink (Some CHR '')'') '' out''"
    by (rule T [THEN conjunct2, THEN conjunct1, THEN mp, OF h1])
  have c2: "replaceAll plainUrl None (''https://'' @ ''example.com'' @ '' out'')
     = replaceAll plainUrl (Some (last ''example.com'')) '' out''"
    by (rule T [THEN conjunct2, THEN conjunct2, THEN conjunct1, THEN mp, OF h2,
          THEN conjunct2, THEN conjunct1])
  have c3: "replaceAll (slashRef CHR ''r'') None (''r/'' @ ''funny'' @ '' out'')
     = replaceAll (slashRef CHR ''r'') (Some (last ''funny'')) '' out''"
    by (rule T [THEN conjunct2, THEN conjunct2, THEN conjunct2, THEN conjunct1, THEN mp,
          OF h3, THEN conjunct1])
  have c4: "singleSpaced (removeLinks ''a  [b](c) \<newline> d '')"
    by (rule T [THEN conjunct2, THEN conjunct2, THEN conjunct2, THEN conjunct2,
          THEN conjunct1])
  show ?thesis
    by (intro conjI) (rule c1 c2 c3 c4 e)+
qed

section \<open>Properties of the sequencers\<close>

lemmas highlight_defs = highlightPost_def highlightComment_def clearHighlight_def

lemma stateAfter_simps [simp]:
  "stateAfter (Inr s) = s" "stateAfter (Inl (e, s)) = s"
  by (simp_all add: stateAfter_def)

lemma thrown_simps [simp]:
  "thrown (Inr s) = None" "thrown (Inl (e, s)) = Some e"
  by (simp_all add: thrown_def)

lemma error_is_SyntaxError: "(e :: error) = SyntaxError"
  by (cases e) simp

lemma readContent_out_of_range:
  "index < 0 \<or> index \<ge> int (length (allContent s)) \<Longrightarrow> readContent index s = Inr s"
  by (auto simp: readContent_def)

lemma readContent_keeps:
  "allContent (stateAfter (readContent i s)) = allContent s"
  "currentIndex (stateAfter (readContent i s)) = currentIndex s"
  "timers (stateAfter (readContent i s)) = timers s"
  "playbackSpeed (stateAfter (readContent i s)) = playbackSpeed s"
  "paused (synthesis (stateAfter (readContent i s))) = paused (synthesis s)"
  by (simp_all add: readContent_def Let_def highlight_defs stateAfter_def speak_def
      split: option.splits sum.splits)

lemma readContent_throws:
  assumes "0 \<le> i" "i < int (length (allContent s))" "highlightThrows s (nat i)"
  shows "readContent i s = Inl (SyntaxError, clearHighlight s)"
proof -
  obtain commentId where c: "item_type (allContent s ! nat i) = Comment"
      "item_id (allContent s ! nat i) = Some commentId" "commentId \<noteq> []"
      "isl (querySelectorComment s commentId)"
    using assms(3) by (auto simp: highlightThrows_def split: option.splits)
  obtain e where "querySelectorComment s commentId = Inl e"
    using c(4) by (cases "querySelectorComment s commentId") auto
  then have "highlightComment commentId s = Inl (SyntaxError, clearHighlight s)"
    by (simp add: highlightComment_def clearHighlight_def error_is_SyntaxError [of e])
  then show ?thesis
    using assms(1,2) c by (simp add: readContent_def Let_def)
qed

lemma readContent_returns:
  assumes "0 \<le> i" "i < int (length (allContent s))" "\<not> highlightThrows s (nat i)"
  shows "thrown (readContent i s) = None"
    and "utterances (stateAfter (readContent i s)) = utterances s @
       [\<lparr>u_text = item_text (allContent s ! nat i), u_rate = playbackSpeed s,
         u_lang = Some (voiceLocale s),
         u_voice = getVoiceForIndex (filteredVoices s) (useUniqueVoices s)
                     (selectedVoiceNames s) (nat i)\<rparr>]"
    and "queue (synthesis (stateAfter (readContent i s)))
           = queue (synthesis s) @ [length (utterances s)]"
  using assms
  by (cases "item_type (allContent s ! nat i)";
      auto simp: readContent_def Let_def highlight_defs speak_def stateAfter_def thrown_def
        highlightThrows_def split: option.splits sum.splits)+

lemma readContent_thrown_iff:
  assumes "0 \<le> i" "i < int (length (allContent s))"
  shows "thrown (readContent i s) = (if highlightThrows s (nat i) then Some SyntaxError else None)"
  using assms readContent_throws [of i s] readContent_returns(1) [of i s]
  by (simp add: thrown_def)

lemma readContent_spoken:
  "set (map u_text (utterances (stateAfter (readContent i s))))
     \<subseteq> set (map u_text (utterances s)) \<union> set (map item_text (allContent s))"
proof (cases "0 \<le> i \<and> i < int (length (allContent s))")
  case True
  then have "nat i < length (allContent s)"
    by linarith
  then have t: "item_text (allContent s ! nat i) \<in> set (map item_text (allContent s))"
    by simp
  show ?thesis
  proof (cases "highlightThrows s (nat i)")
    case False
    then show ?thesis
      using True t by (auto simp: readContent_returns(2))
  next
    case h: True
    then have "readContent i s = Inl (SyntaxError, clearHighlight s)"
      using True by (intro readContent_throws) simp_all
    then show ?thesis
      by (auto simp: stateAfter_def clearHighlight_def)
  qed
next
  case False
  then have "readContent i s = Inr s"
    by (intro readContent_out_of_range) linarith
  then show ?thesis by (auto simp: stateAfter_def)
qed

lemma onend_keeps:
  "allContent (onend s) = allContent s" "utterances (onend s) = utterances s"
  by (simp_all add: onend_def clearHighlight_def)

lemma onend_in_bounds: "cursorInBounds s \<Longrightarrow> cursorInBounds (onend s)"
  by (auto simp: onend_def cursorInBounds_def clearHighlight_def)

lemma onMessage_allContent: "allContent (stateAfter (onMessage a s)) = allContent s"
  by (cases a)
     (simp_all add: readContent_keeps Let_def cleanup_def clearHighlight_def)

lemma onMessage_in_bounds:
  "cursorInBounds s \<Longrightarrow> cursorInBounds (stateAfter (onMessage a s))"
  by (cases a)
     (auto simp: cursorInBounds_def readContent_keeps Let_def cleanup_def clearHighlight_def)

lemma onMessage_spoken:
  "set (map u_text (utterances (stateAfter (onMessage a s))))
     \<subseteq> set (map u_text (utterances s)) \<union> set (map item_text (allContent s))"
proof (cases a)
  case Play
  then show ?thesis
    using readContent_spoken [of "currentIndex s" s] by auto
next
  case Next
  let ?s2 = "s\<lparr>synthesis := cancel (synthesis s), currentIndex := currentIndex s + 1\<rparr>"
  show ?thesis
    using Next readContent_spoken [of "currentIndex ?s2" ?s2]
    by (auto simp: Let_def)
next
  case Previous
  let ?s1 = "s\<lparr>synthesis := cancel (synthesis s)\<rparr>"
  let ?s2 = "s\<lparr>synthesis := cancel (synthesis s), currentIndex := currentIndex s - 1\<rparr>"
  show ?thesis
    using Previous readContent_spoken [of "currentIndex ?s1" ?s1]
      readContent_spoken [of "currentIndex ?s2" ?s2]
    by (auto simp: Let_def)
qed (auto simp: cleanup_def clearHighlight_def)

lemma step_allContent: "allContent (step e s) = allContent s"
  by (cases e) (simp_all add: onMessage_allContent onend_keeps onerror_def readContent_keeps Let_def)

lemma step_in_bounds: "cursorInBounds s \<Longrightarrow> cursorInBounds (step e s)"
proof (cases e)
  case (Message a)
  assume "cursorInBounds s"
  then show ?thesis
    using Message by (simp add: onMessage_in_bounds)
next
  case UtteranceEnd
  assume b: "cursorInBounds s"
  have "cursorInBounds (s\<lparr>synthesis := y\<rparr>)" for y
    using b by (simp add: cursorInBounds_def)
  then show ?thesis
    using UtteranceEnd b by (simp add: onend_in_bounds)
next
  case LateEnd
  assume "cursorInBounds s"
  then show ?thesis
    using LateEnd by (simp add: onend_in_bounds)
next
  case UtteranceError
  assume "cursorInBounds s"
  then show ?thesis
    using UtteranceError by (simp add: onerror_def cursorInBounds_def)
next
  case LateError
  assume "cursorInBounds s"
  then show ?thesis
    using LateError by (simp add: onerror_def cursorInBounds_def)
next
  case TimerFires
  assume "cursorInBounds s"
  then show ?thesis
    using TimerFires by (simp add: cursorInBounds_def readContent_keeps Let_def)
qed

lemma step_spoken:
  "set (map u_text (utterances (step e s)))
     \<subseteq> set (map u_text (utterances s)) \<union> set (map item_text (allContent s))"
proof (cases e)
  case (Message a)
  then show ?thesis
    using onMessage_spoken [of a s] by simp
next
  case TimerFires
  let ?s1 = "s\<lparr>timers := timers s - 1\<rparr>"
  show ?thesis
    using TimerFires readContent_spoken [of "currentIndex ?s1" ?s1] by (auto simp: Let_def)
qed (auto simp: onend_keeps onerror_def)

lemma run_Cons: "run (e # es) s = run es (step e s)"
  by (simp add: run_def)

lemma run_allContent: "allContent (run es s) = allContent s"
  by (induction es arbitrary: s) (simp_all add: run_Cons step_allContent, simp add: run_def)

lemma run_in_bounds: "cursorInBounds s \<Longrightarrow> cursorInBounds (run es s)"
proof (induction es arbitrary: s)
  case Nil
  then show ?case by (simp add: run_def)
next
  case (Cons e es)
  then show ?case
    by (simp add: run_Cons step_in_bounds)
qed

lemma run_spoken:
  "set (map u_text (utterances (run es s)))
     \<subseteq> set (map u_text (utterances s)) \<union> set (map item_text (allContent s))"
proof (induction es arbitrary: s)
  case Nil
  show ?case by (simp add: run_def)
next
  case (Cons e es)
  have "set (map u_text (utterances (run es (step e s))))
     \<subseteq> set (map u_text (utterances (step e s))) \<union> set (map item_text (allContent s))"
    using Cons [of "step e s"] by (simp add: step_allContent)
  then show ?case
    using step_spoken [of e s] unfolding run_Cons by blast
qed

lemma readComment_out_of_range:
  "index < 0 \<or> index \<ge> int (length (comments' this)) \<Longrightarrow> readComment index this = this"
  by (auto simp: readComment_def)

lemma readComment_keeps:
  "comments' (readComment i this) = comments' this"
  "currentIndex' (readComment i this) = currentIndex' this"
  "timers' (readComment i this) = timers' this"
  "playbackSpeed' (readComment i this) = playbackSpeed' this"
  by (simp_all add: readComment_def Let_def)

lemma readComment_in_range:
  assumes "0 \<le> i" "i < int (length (comments' this))"
  shows "utterances' (readComment i this) = utterances' this @
       [\<lparr>u_text = ec_text (comments' this ! nat i), u_rate = playbackSpeed' this,
         u_lang = None, u_voice = None\<rparr>]"
    and "queue (synthesis' (readComment i this))
           = queue (synthesis' this) @ [length (utterances' this)]"
    and "utterance (readComment i this) = Some (length (utterances' this))"
  using assms by (simp_all add: readComment_def Let_def speak_def)

lemma engine_step_comments: "comments' (step' c this) = comments' this"
  by (cases c)
     (simp_all add: play_def pause'_def stop_def next'_def previous_def setSpeed_def onend'_def
        readComment_keeps Let_def split: option.splits)

lemma engine_step_in_bounds: "cursorInBounds' this \<Longrightarrow> cursorInBounds' (step' c this)"
  by (cases c)
     (auto simp: cursorInBounds'_def play_def pause'_def stop_def next'_def previous_def
        setSpeed_def onend'_def readComment_keeps Let_def split: option.splits)

lemma run'_Cons: "run' (c # cs) this = run' cs (step' c this)"
  by (simp add: run'_def)

lemma engine_run_in_bounds: "cursorInBounds' this \<Longrightarrow> cursorInBounds' (run' cs this)"
proof (induction cs arbitrary: this)
  case Nil
  then show ?case by (simp add: run'_def)
next
  case (Cons c cs)
  then show ?case
    by (simp add: run'_Cons engine_step_in_bounds)
qed

text \<open>
  Claim C10. After a load or an extraction the cursor is 0, which is within
  \<open>0 \<le> cursor \<le> max(0, totalItems - 1)\<close>; every message, completion or error
  callback and timer keeps the cursor within these bounds and leaves the queue as it is;
  \<open>readContent\<close> and \<open>readComment\<close> return with nothing done for an index outside
  \<open>[0, totalItems - 1]\<close>, and whatever is spoken is the text of an item of the queue.
\<close>

theorem cursor_stays_in_bounds:
  "cursorInBounds (onExtracted title bodyText cs s)
   \<and> (cursorInBounds s \<longrightarrow> cursorInBounds (step e s))
   \<and> cursorInBounds (run es (onExtracted title bodyText cs s))
   \<and> allContent (run es s) = allContent s
   \<and> (index < 0 \<or> index \<ge> int (length (allContent s)) \<longrightarrow> readContent index s = Inr s)
   \<and> set (map u_text (utterances (run es s)))
        \<subseteq> set (map u_text (utterances s)) \<union> set (map item_text (allContent s))
   \<and> cursorInBounds' (loadComments ecs this)
   \<and> (cursorInBounds' this \<longrightarrow> cursorInBounds' (step' c this))
   \<and> cursorInBounds' (run' calls (loadComments ecs this))
   \<and> (index < 0 \<or> index \<ge> int (length (comments' this)) \<longrightarrow> readComment index this = this)"
proof -
  have a: "cursorInBounds (onExtracted title bodyText cs s)"
    by (simp add: cursorInBounds_def onExtracted_def)
  have b: "cursorInBounds' (loadComments ecs this)"
    by (simp add: cursorInBounds'_def loadComments_def)
  show ?thesis
    using a b run_in_bounds [OF a, of es] engine_run_in_bounds [OF b, of calls]
      step_in_bounds [of s e] engine_step_in_bounds [of this c]
      run_allContent [of es s] run_spoken [of es s]
      readContent_out_of_range [of index s] readComment_out_of_range [of index this]
    by (intro conjI impI) assumption+
qed

theorem cursor_stays_in_bounds_witness:
  "cursorInBounds (onExtracted ''T'' ''B'' [] (initialPlayer [] True []))
   \<and> cursorInBounds
        (step (Message Next) (onExtracted ''T'' ''B'' [] (initialPlayer [] True [])))
   \<and> currentIndex
        (run [Message Next, Message Next, Message Next, Message Previous, UtteranceEnd,
              TimerFires, UtteranceEnd, Message Stop, LateEnd]
           (onExtracted ''T'' ''B'' [] (initialPlayer [] True []))) = 1
   \<and> readContent 2 (onExtracted ''T'' ''B'' [] (initialPlayer [] True []))
       = Inr (onExtracted ''T'' ''B'' [] (initialPlayer [] True []))
   \<and> readContent (- 1) (onExtracted ''T'' ''B'' [] (initialPlayer [] True []))
       = Inr (onExtracted ''T'' ''B'' [] (initialPlayer [] True []))
   \<and> readComment 0 newEngine = newEngine"
proof -
  let ?s = "onExtracted ''T'' ''B'' [] (initialPlayer [] True [])"
  note T = cursor_stays_in_bounds [where title = "''T''" and bodyText = "''B''" and cs = "[]"
      and s = "initialPlayer [] True []"]
  have len: "int (length (allContent ?s)) = 2"
    by (simp add: onExtracted_def buildContent_def)
  have a: "cursorInBounds ?s"
    by (rule T [THEN conjunct1])
  have b: "cursorInBounds (step (Message Next) ?s)"
    using cursor_stays_in_bounds [where s = "?s" and e = "Message Next"] a by blast
  have c: "currentIndex
        (run [Message Next, Message Next, Message Next, Message Previous, UtteranceEnd,
              TimerFires, UtteranceEnd, Message Stop, LateEnd] ?s) = 1"
    by code_simp
  have d: "readContent 2 ?s = Inr ?s"
    using cursor_stays_in_bounds [where s = "?s" and index = 2] len by simp
  have e: "readContent (- 1) ?s = Inr ?s"
    using cursor_stays_in_bounds [where s = "?s" and index = "- 1"] by simp
  have f: "readComment 0 newEngine = newEngine"
    using cursor_stays_in_bounds [where this = newEngine and index = 0]
    by (simp add: newEngine_def)
  show ?thesis
    by (intro conjI) (rule a b c d e f)+
qed















lemma PlaybackEngine_setSpeed_clamps:
  "1 / 2 \<le> playbackSpeed' (setSpeed speed this) \<and> playbackSpeed' (setSpeed speed this) \<le> 2
   \<and> playbackSpeed' (setSpeed speed this) = max (1 / 2) (min 2 speed)"
proof -
  have "playbackSpeed' (setSpeed speed this) = max (1 / 2) (min 2 speed)"
    by (simp add: setSpeed_def Let_def split: option.splits)
  then show ?thesis
    by (simp add: max_def min_def)
qed

lemma PlaybackEngine_setSpeed_in_flight:
  "utterance this = Some uid \<Longrightarrow> uid < length (utterances' this) \<Longrightarrow>
   u_rate (utterances' (setSpeed speed this) ! uid) = max (1 / 2) (min 2 speed)"
  by (simp add: setSpeed_def Let_def)

lemma PlaybackEngine_setSpeed_later:
  "0 \<le> i \<Longrightarrow> i < int (length (comments' this)) \<Longrightarrow>
   u_rate (last (utterances' (readComment i (setSpeed speed this))))
     = max (1 / 2) (min 2 speed)"
  by (simp add: readComment_def Let_def setSpeed_def split: option.splits)

text \<open>
  Claim C2 on the content script, at the message \<open>setSpeed\<close> with speed 3 while the
  title is being spoken: the stored speed is 3, the utterance in flight keeps its rate 1,
  and the next utterance is created with rate 3. The \<open>setSpeed\<close> of
  \<open>PlaybackEngine\<close> does clamp and does write the rate of its current utterance.
\<close>

theorem setSpeed_message_stores_unclamped:
  "playbackSpeed (run [Message Play, Message (SetSpeed 3)]
       (onExtracted ''T'' ''B'' [] (initialPlayer [] True []))) = 3
   \<and> queue (synthesis (run [Message Play, Message (SetSpeed 3)]
       (onExtracted ''T'' ''B'' [] (initialPlayer [] True [])))) = [0]
   \<and> map u_rate (utterances (run [Message Play, Message (SetSpeed 3)]
       (onExtracted ''T'' ''B'' [] (initialPlayer [] True [])))) = [1]
   \<and> map u_rate (utterances (run [Message Play, Message (SetSpeed 3), Message Next]
       (onExtracted ''T'' ''B'' [] (initialPlayer [] True [])))) = [1, 3]
   \<and> playbackSpeed' (run' [CallPlay, CallSetSpeed 3]
       (loadComments [\<lparr>ec_text = ''T'', ec_author = None\<rparr>,
                      \<lparr>ec_text = ''B'', ec_author = None\<rparr>] newEngine)) = 2
   \<and> map u_rate (utterances' (run' [CallPlay, CallSetSpeed 3]
       (loadComments [\<lparr>ec_text = ''T'', ec_author = None\<rparr>,
                      \<lparr>ec_text = ''B'', ec_author = None\<rparr>] newEngine))) = [2]"
  by code_simp












end
